theory Spec2Isabelle
  imports Main "HOL-Library.Word" "HOL-Library.Sublist"
begin

section \<open>Data model of audio.go\<close>

text \<open>
  A Go byte slice that is passed by value through the bridge is a list of bytes. A Go
  \<^verbatim>\<open>error\<close> is an interface value: \<open>None\<close> is \<^verbatim>\<open>nil\<close>, \<open>Some msg\<close> an error whose
  \<^verbatim>\<open>Error()\<close> text is \<open>msg\<close>.
\<close>

type_synonym bytes = "char list"
type_synonym go_error = "string option"

text \<open>
  \<^verbatim>\<open>type AudioChunk struct { PCM []byte; TsMs int64; Final bool }\<close>. The payload type is a
  parameter: the bridge moves payloads by value (\<open>bytes\<close>), the reader task of
  endpoints.go is modelled over a store and holds slice references.
\<close>

record 'p AudioChunk =
  PCM :: 'p
  TsMs :: "64 word"
  Final :: bool

text \<open>\<^verbatim>\<open>type TranscriptPiece struct { Text string; Partial bool }\<close>\<close>

record TranscriptPiece =
  Text :: string
  Partial :: bool

text \<open>
  The events of the remote session, with the fields the receiver reads:
  an alternative's \<^verbatim>\<open>Transcript *string\<close>, a result's \<^verbatim>\<open>Alternatives\<close> and
  \<^verbatim>\<open>IsPartial\<close>, and a transcript event's \<^verbatim>\<open>Transcript\<close> pointer (nil, or a
  transcript with its \<^verbatim>\<open>Results\<close>). Every other member of the event union is
  \<open>OtherEvent\<close>.
\<close>

record Alternative =
  Transcript :: "string option"

record Result =
  Alternatives :: "Alternative list"
  IsPartial :: bool

datatype event = TranscriptEvent "Result list option" | OtherEvent string

section \<open>Go channels\<close>

text \<open>
  A buffered channel \<^verbatim>\<open>make(chan T, N)\<close>: the queued values, the capacity and whether
  \<^verbatim>\<open>close\<close> was called. Every channel of the bridge has a capacity of at least one.
\<close>

record 'a chan =
  buf :: "'a list"
  cap :: nat
  closed :: bool

definition make_chan :: "nat \<Rightarrow> 'a chan" where
  "make_chan n = \<lparr>buf = [], cap = n, closed = False\<rparr>"

datatype 'a send_result = Sent "'a chan" | SendBlocks | SendPanics

datatype 'a recv_result = Received "'a option" "'a chan" | RecvBlocks

datatype 'a close_result = Closed "'a chan" | ClosePanics

text \<open>\<^verbatim>\<open>ch <- v\<close>: panics on a closed channel, blocks while the buffer is full.\<close>

definition chan_send :: "'a chan \<Rightarrow> 'a \<Rightarrow> 'a send_result" where
  "chan_send c v =
     (if closed c then SendPanics
      else if length (buf c) < cap c then Sent (c\<lparr>buf := buf c @ [v]\<rparr>)
      else SendBlocks)"

text \<open>
  \<^verbatim>\<open>v, ok := <-ch\<close>: the oldest queued value (\<open>Some v\<close>); on a closed and drained
  channel it returns at once with \<^verbatim>\<open>ok = false\<close> (\<open>None\<close>); otherwise it blocks.
\<close>

definition chan_recv :: "'a chan \<Rightarrow> 'a recv_result" where
  "chan_recv c =
     (case buf c of
        v # rest \<Rightarrow> Received (Some v) (c\<lparr>buf := rest\<rparr>)
      | [] \<Rightarrow> if closed c then Received None c else RecvBlocks)"

text \<open>\<^verbatim>\<open>close(ch)\<close>: panics on a channel that is already closed.\<close>

definition chan_close :: "'a chan \<Rightarrow> 'a close_result" where
  "chan_close c = (if closed c then ClosePanics else Closed (c\<lparr>closed := True\<rparr>))"

section \<open>The bridge: runTranscribeStream and its three goroutines\<close>

text \<open>
  The receiver's nested loops over \<^verbatim>\<open>te.Value.Transcript.Results\<close> and
  \<^verbatim>\<open>res.Alternatives\<close> (audio.go, lines 187 to 194): the pieces one event makes the
  receiver send, in the order of the sends.
\<close>

fun alt_loop :: "bool \<Rightarrow> Alternative list \<Rightarrow> TranscriptPiece list" where
  "alt_loop partial [] = []"
| "alt_loop partial (alt # alts) =
     (case Transcript alt of
        Some t \<Rightarrow> \<lparr>Text = t, Partial = partial\<rparr> # alt_loop partial alts
      | None \<Rightarrow> alt_loop partial alts)"

fun res_loop :: "Result list \<Rightarrow> TranscriptPiece list" where
  "res_loop [] = []"
| "res_loop (res # rest) = alt_loop (IsPartial res) (Alternatives res) @ res_loop rest"

fun pieces_of :: "event \<Rightarrow> TranscriptPiece list" where
  "pieces_of (TranscriptEvent None) = []"
| "pieces_of (TranscriptEvent (Some results)) = res_loop results"
| "pieces_of (OtherEvent kind) = []"

text \<open>
  Program counters. Each constructor is the next statement of its goroutine that touches a
  channel or the remote stream; the values a goroutine holds in local variables are the
  constructor's arguments.
\<close>

datatype sender_pc =
    S_range                        \<comment> \<open>line 152: receive of the range loop\<close>
  | S_send "bytes AudioChunk"      \<comment> \<open>line 162: Send of a chunk that is not final\<close>
  | S_close                        \<comment> \<open>lines 156 and 172: Close of the stream\<close>
  | S_signal go_error              \<comment> \<open>line 164: sendDone <- wrapped error\<close>
  | S_defer                        \<comment> \<open>line 151: the deferred close(sendDone)\<close>
  | S_panic                        \<comment> \<open>panicking: the deferred call runs, then the process dies\<close>
  | S_done

datatype receiver_pc =
    R_range                        \<comment> \<open>line 180: receive of the range loop over Events()\<close>
  | R_publish "TranscriptPiece list" \<comment> \<open>line 191: the sends still to make for the event\<close>
  | R_err                          \<comment> \<open>line 200: Err() of the stream\<close>
  | R_signal go_error              \<comment> \<open>line 202: recvDone <- wrapped error\<close>
  | R_defer                        \<comment> \<open>line 179: the deferred close(recvDone)\<close>
  | R_panic                        \<comment> \<open>panicking: the deferred call runs, then the process dies\<close>
  | R_done

datatype closer_pc =
    C_select                       \<comment> \<open>line 214: select over sendDone and recvDone\<close>
  | C_publish go_error             \<comment> \<open>lines 222 to 227: firstErr is held\<close>
  | C_close_transcript             \<comment> \<open>line 229\<close>
  | C_close_err                    \<comment> \<open>line 230\<close>
  | C_done

datatype source = FromSender | FromReceiver

text \<open>
  The history of an execution: every operation on a channel or on the remote stream, in
  the order the operations happened.
\<close>

datatype obs =
    Submitted "bytes AudioChunk"   \<comment> \<open>the caller sent a chunk on audioInputChannel\<close>
  | InputClosed                    \<comment> \<open>the caller closed audioInputChannel\<close>
  | Taken "bytes AudioChunk"       \<comment> \<open>the sender received a chunk\<close>
  | StreamSend bytes               \<comment> \<open>Send returned nil: the remote session has the payload\<close>
  | StreamSendFailed bytes         \<comment> \<open>Send returned an error\<close>
  | StreamClose                    \<comment> \<open>Close of the remote stream was called\<close>
  | SignalSent source go_error     \<comment> \<open>a value was sent on sendDone or recvDone\<close>
  | SignalClosed source            \<comment> \<open>sendDone or recvDone was closed\<close>
  | EventEmitted event             \<comment> \<open>the remote session emitted an event\<close>
  | EventsEnded go_error           \<comment> \<open>the remote session closed Events()\<close>
  | EventTaken event               \<comment> \<open>the receiver received an event\<close>
  | TranscriptSent TranscriptPiece \<comment> \<open>a piece was sent on transcriptOutputChannel\<close>
  | TranscriptSendOnClosed TranscriptPiece
                                   \<comment> \<open>line 191 ran on the closed channel and panicked\<close>
  | TranscriptClosed               \<comment> \<open>transcriptOutputChannel was closed\<close>
  | Observed source go_error       \<comment> \<open>the closer's select received from that channel\<close>
  | ErrSent go_error               \<comment> \<open>a value was sent on errOutputChannel\<close>
  | ErrDropped go_error            \<comment> \<open>the default branch of line 225 was taken\<close>
  | ErrClosed                      \<comment> \<open>errOutputChannel was closed\<close>

record bridge =
  audioInputChannel :: "bytes AudioChunk chan"
  transcriptOutputChannel :: "TranscriptPiece chan"
  errOutputChannel :: "go_error chan"
  sendDone :: "go_error chan"
  recvDone :: "go_error chan"
  events :: "event list"           \<comment> \<open>emitted by the remote session, not yet received\<close>
  events_closed :: bool            \<comment> \<open>the remote session closed Events()\<close>
  stream_err :: go_error           \<comment> \<open>what Err() of the stream returns\<close>
  spc :: sender_pc
  rpc :: receiver_pc
  cpc :: closer_pc
  crashed :: bool                  \<comment> \<open>an unrecovered panic ended the process\<close>
  trace :: "obs list"

text \<open>
  The state in which runTranscribeStream returns after a successful start (lines 134 to
  144 and 238): five empty channels and three goroutines at their first statement.
\<close>

definition init :: bridge where
  "init = \<lparr>audioInputChannel = make_chan 16,
           transcriptOutputChannel = make_chan 32,
           errOutputChannel = make_chan 1,
           sendDone = make_chan 1,
           recvDone = make_chan 1,
           events = [], events_closed = False, stream_err = None,
           spc = S_range, rpc = R_range, cpc = C_select,
           crashed = False, trace = []\<rparr>"

definition log :: "obs \<Rightarrow> bridge \<Rightarrow> bridge" where
  "log x s = s\<lparr>trace := trace s @ [x]\<rparr>"

text \<open>\<^verbatim>\<open>fmt.Errorf("send audio: %w", err)\<close> and \<^verbatim>\<open>fmt.Errorf("receive: %w", err)\<close>\<close>

definition wrap_send :: "string \<Rightarrow> go_error" where
  "wrap_send msg = Some (''send audio: '' @ msg)"

definition wrap_recv :: "string \<Rightarrow> go_error" where
  "wrap_recv msg = Some (''receive: '' @ msg)"

text \<open>
  One step of the sender goroutine (lines 149 to 173). \<open>send_result\<close> is what the remote
  session answers when the step is the call of Send. \<open>None\<close> means the goroutine cannot
  move: it is blocked or has returned.
\<close>

definition sender_step :: "go_error \<Rightarrow> bridge \<Rightarrow> bridge option" where
  "sender_step send_result s =
     (case spc s of
        S_range \<Rightarrow>
          (case chan_recv (audioInputChannel s) of
             RecvBlocks \<Rightarrow> None
           | Received (Some ch) c \<Rightarrow>
               Some (log (Taken ch)
                 (s\<lparr>audioInputChannel := c, spc := (if Final ch then S_close else S_send ch)\<rparr>))
           | Received None c \<Rightarrow> Some (s\<lparr>audioInputChannel := c, spc := S_close\<rparr>))
      | S_send ch \<Rightarrow>
          (case send_result of
             None \<Rightarrow> Some (log (StreamSend (PCM ch)) (s\<lparr>spc := S_range\<rparr>))
           | Some msg \<Rightarrow>
               Some (log (StreamSendFailed (PCM ch)) (s\<lparr>spc := S_signal (wrap_send msg)\<rparr>)))
      | S_close \<Rightarrow> Some (log StreamClose (s\<lparr>spc := S_defer\<rparr>))
      | S_signal e \<Rightarrow>
          (case chan_send (sendDone s) e of
             Sent c \<Rightarrow> Some (log (SignalSent FromSender e) (s\<lparr>sendDone := c, spc := S_defer\<rparr>))
           | SendBlocks \<Rightarrow> None
           | SendPanics \<Rightarrow> Some (s\<lparr>spc := S_panic\<rparr>))
      | S_defer \<Rightarrow>
          (case chan_close (sendDone s) of
             Closed c \<Rightarrow> Some (log (SignalClosed FromSender) (s\<lparr>sendDone := c, spc := S_done\<rparr>))
           | ClosePanics \<Rightarrow> Some (s\<lparr>spc := S_done, crashed := True\<rparr>))
      | S_panic \<Rightarrow>
          (case chan_close (sendDone s) of
             Closed c \<Rightarrow>
               Some (log (SignalClosed FromSender)
                 (s\<lparr>sendDone := c, spc := S_done, crashed := True\<rparr>))
           | ClosePanics \<Rightarrow> Some (s\<lparr>spc := S_done, crashed := True\<rparr>))
      | S_done \<Rightarrow> None)"

text \<open>
  One step of the receiver goroutine (lines 177 to 206). A send on the closed
  transcriptOutputChannel panics: the deferred close(recvDone) runs and the process dies.
\<close>

definition receiver_step :: "bridge \<Rightarrow> bridge option" where
  "receiver_step s =
     (case rpc s of
        R_range \<Rightarrow>
          (case events s of
             ev # rest \<Rightarrow>
               Some (log (EventTaken ev) (s\<lparr>events := rest, rpc := R_publish (pieces_of ev)\<rparr>))
           | [] \<Rightarrow> if events_closed s then Some (s\<lparr>rpc := R_err\<rparr>) else None)
      | R_publish [] \<Rightarrow> Some (s\<lparr>rpc := R_range\<rparr>)
      | R_publish (p # ps) \<Rightarrow>
          (case chan_send (transcriptOutputChannel s) p of
             Sent c \<Rightarrow>
               Some (log (TranscriptSent p) (s\<lparr>transcriptOutputChannel := c, rpc := R_publish ps\<rparr>))
           | SendBlocks \<Rightarrow> None
           | SendPanics \<Rightarrow> Some (log (TranscriptSendOnClosed p) (s\<lparr>rpc := R_panic\<rparr>)))
      | R_err \<Rightarrow>
          (case stream_err s of
             None \<Rightarrow> Some (s\<lparr>rpc := R_defer\<rparr>)
           | Some msg \<Rightarrow> Some (s\<lparr>rpc := R_signal (wrap_recv msg)\<rparr>))
      | R_signal e \<Rightarrow>
          (case chan_send (recvDone s) e of
             Sent c \<Rightarrow> Some (log (SignalSent FromReceiver e) (s\<lparr>recvDone := c, rpc := R_defer\<rparr>))
           | SendBlocks \<Rightarrow> None
           | SendPanics \<Rightarrow> Some (s\<lparr>rpc := R_panic\<rparr>))
      | R_defer \<Rightarrow>
          (case chan_close (recvDone s) of
             Closed c \<Rightarrow> Some (log (SignalClosed FromReceiver) (s\<lparr>recvDone := c, rpc := R_done\<rparr>))
           | ClosePanics \<Rightarrow> Some (s\<lparr>rpc := R_done, crashed := True\<rparr>))
      | R_panic \<Rightarrow>
          (case chan_close (recvDone s) of
             Closed c \<Rightarrow>
               Some (log (SignalClosed FromReceiver)
                 (s\<lparr>recvDone := c, rpc := R_done, crashed := True\<rparr>))
           | ClosePanics \<Rightarrow> Some (s\<lparr>rpc := R_done, crashed := True\<rparr>))
      | R_done \<Rightarrow> None)"

text \<open>
  \<^verbatim>\<open>e := <-ch\<close> on a channel of errors: the value received, or, on a closed and drained
  channel, the zero value, which is the nil error.
\<close>

definition received_error :: "go_error option \<Rightarrow> go_error" where
  "received_error v = (case v of Some e \<Rightarrow> e | None \<Rightarrow> None)"

text \<open>
  One step of the closer goroutine (lines 211 to 231). \<open>sel\<close> is the case its select
  takes; a case can be taken only when its receive can proceed. The send of line 224 is in
  a select with a default branch: when it cannot proceed, the error is dropped.
\<close>

definition closer_step :: "source \<Rightarrow> bridge \<Rightarrow> bridge option" where
  "closer_step sel s =
     (case cpc s of
        C_select \<Rightarrow>
          (case sel of
             FromSender \<Rightarrow>
               (case chan_recv (sendDone s) of
                  RecvBlocks \<Rightarrow> None
                | Received v c \<Rightarrow>
                    Some (log (Observed FromSender (received_error v))
                      (s\<lparr>sendDone := c, cpc := C_publish (received_error v)\<rparr>)))
           | FromReceiver \<Rightarrow>
               (case chan_recv (recvDone s) of
                  RecvBlocks \<Rightarrow> None
                | Received v c \<Rightarrow>
                    Some (log (Observed FromReceiver (received_error v))
                      (s\<lparr>recvDone := c, cpc := C_publish (received_error v)\<rparr>))))
      | C_publish firstErr \<Rightarrow>
          (case firstErr of
             None \<Rightarrow> Some (s\<lparr>cpc := C_close_transcript\<rparr>)
           | Some msg \<Rightarrow>
               (case chan_send (errOutputChannel s) firstErr of
                  Sent c \<Rightarrow>
                    Some (log (ErrSent firstErr)
                      (s\<lparr>errOutputChannel := c, cpc := C_close_transcript\<rparr>))
                | SendBlocks \<Rightarrow> Some (log (ErrDropped firstErr) (s\<lparr>cpc := C_close_transcript\<rparr>))
                | SendPanics \<Rightarrow> Some (s\<lparr>cpc := C_done, crashed := True\<rparr>)))
      | C_close_transcript \<Rightarrow>
          (case chan_close (transcriptOutputChannel s) of
             Closed c \<Rightarrow>
               Some (log TranscriptClosed (s\<lparr>transcriptOutputChannel := c, cpc := C_close_err\<rparr>))
           | ClosePanics \<Rightarrow> Some (s\<lparr>cpc := C_done, crashed := True\<rparr>))
      | C_close_err \<Rightarrow>
          (case chan_close (errOutputChannel s) of
             Closed c \<Rightarrow> Some (log ErrClosed (s\<lparr>errOutputChannel := c, cpc := C_done\<rparr>))
           | ClosePanics \<Rightarrow> Some (s\<lparr>cpc := C_done, crashed := True\<rparr>))
      | C_done \<Rightarrow> None)"

text \<open>
  The environment of the bridge: the caller that holds the three returned channels, and
  the remote session. The caller sends chunks and may close the input channel; it
  receives from the two output channels. (A caller that sends on the channel it has closed,
  or closes it twice, panics in its own code: these are not steps of the bridge.) The
  remote session emits events at any time and ends its event stream once, with or without
  an error. An action that cannot be taken in a state, because its task is blocked or has
  returned, gives \<open>None\<close>.
\<close>

datatype action =
    Submit "bytes AudioChunk"
  | CloseInput
  | ConsumeTranscript
  | ConsumeErr
  | RemoteEmit event
  | RemoteEnd go_error
  | SenderStep go_error
  | ReceiverStep
  | CloserStep source

definition env_step :: "action \<Rightarrow> bridge \<Rightarrow> bridge option" where
  "env_step a s =
     (case a of
        Submit ch \<Rightarrow>
          (case chan_send (audioInputChannel s) ch of
             Sent c \<Rightarrow> Some (log (Submitted ch) (s\<lparr>audioInputChannel := c\<rparr>))
           | _ \<Rightarrow> None)
      | CloseInput \<Rightarrow>
          (case chan_close (audioInputChannel s) of
             Closed c \<Rightarrow> Some (log InputClosed (s\<lparr>audioInputChannel := c\<rparr>))
           | ClosePanics \<Rightarrow> None)
      | ConsumeTranscript \<Rightarrow>
          (case chan_recv (transcriptOutputChannel s) of
             Received v c \<Rightarrow> Some (s\<lparr>transcriptOutputChannel := c\<rparr>)
           | RecvBlocks \<Rightarrow> None)
      | ConsumeErr \<Rightarrow>
          (case chan_recv (errOutputChannel s) of
             Received v c \<Rightarrow> Some (s\<lparr>errOutputChannel := c\<rparr>)
           | RecvBlocks \<Rightarrow> None)
      | RemoteEmit ev \<Rightarrow>
          (if events_closed s then None
           else Some (log (EventEmitted ev) (s\<lparr>events := events s @ [ev]\<rparr>)))
      | RemoteEnd e \<Rightarrow>
          (if events_closed s then None
           else Some (log (EventsEnded e) (s\<lparr>events_closed := True, stream_err := e\<rparr>)))
      | _ \<Rightarrow> None)"

text \<open>The step relation of the interleaved tasks, as a function of the scheduled action.\<close>

definition fire :: "action \<Rightarrow> bridge \<Rightarrow> bridge option" where
  "fire a s =
     (if crashed s then None
      else case a of
        SenderStep r \<Rightarrow> sender_step r s
      | ReceiverStep \<Rightarrow> receiver_step s
      | CloserStep sel \<Rightarrow> closer_step sel s
      | _ \<Rightarrow> env_step a s)"

fun run :: "action list \<Rightarrow> bridge \<Rightarrow> bridge option" where
  "run [] s = Some s"
| "run (a # as) s = (case fire a s of None \<Rightarrow> None | Some s' \<Rightarrow> run as s')"

section \<open>Projections of the history\<close>

fun is_signal :: "source \<Rightarrow> obs \<Rightarrow> bool" where
  "is_signal src (SignalSent a e) = (a = src)"
| "is_signal src (SignalClosed a) = (a = src)"
| "is_signal src x = False"

text \<open>What the sender did to sendDone, or the receiver to recvDone, in order.\<close>

definition signal_ops :: "source \<Rightarrow> obs list \<Rightarrow> obs list" where
  "signal_ops src tr = filter (is_signal src) tr"

fun is_stream_op :: "obs \<Rightarrow> bool" where
  "is_stream_op (StreamSend p) = True"
| "is_stream_op (StreamSendFailed p) = True"
| "is_stream_op StreamClose = True"
| "is_stream_op x = False"

text \<open>The calls the remote session handle received, in order.\<close>

definition stream_ops :: "obs list \<Rightarrow> obs list" where
  "stream_ops tr = filter is_stream_op tr"

definition stream_closes :: "obs list \<Rightarrow> nat" where
  "stream_closes tr = length (filter (\<lambda>x. x = StreamClose) tr)"

fun is_send_failed :: "obs \<Rightarrow> bool" where
  "is_send_failed (StreamSendFailed p) = True"
| "is_send_failed x = False"

definition send_failures :: "obs list \<Rightarrow> obs list" where
  "send_failures tr = filter is_send_failed tr"

fun is_closer_op :: "obs \<Rightarrow> bool" where
  "is_closer_op (ErrSent e) = True"
| "is_closer_op (ErrDropped e) = True"
| "is_closer_op TranscriptClosed = True"
| "is_closer_op ErrClosed = True"
| "is_closer_op x = False"

text \<open>What the closer did to the two output channels, in order.\<close>

definition closer_ops :: "obs list \<Rightarrow> obs list" where
  "closer_ops tr = filter is_closer_op tr"

fun observed_of :: "obs \<Rightarrow> (source \<times> go_error) list" where
  "observed_of (Observed src e) = [(src, e)]"
| "observed_of x = []"

text \<open>The termination signals the closer's select received, with the channel of each.\<close>

definition observations :: "obs list \<Rightarrow> (source \<times> go_error) list" where
  "observations tr = concat (map observed_of tr)"

text \<open>\<^verbatim>\<open>firstErr\<close>: the error of the first signal that reached the closer.\<close>

definition first_error :: "obs list \<Rightarrow> go_error" where
  "first_error tr = (case observations tr of [] \<Rightarrow> None | (src, e) # rest \<Rightarrow> e)"

fun err_sent_of :: "obs \<Rightarrow> go_error list" where
  "err_sent_of (ErrSent e) = [e]"
| "err_sent_of x = []"

text \<open>Every value that was ever sent on errOutputChannel.\<close>

definition errors_published :: "obs list \<Rightarrow> go_error list" where
  "errors_published tr = concat (map err_sent_of tr)"

fun submitted_of :: "obs \<Rightarrow> bytes AudioChunk list" where
  "submitted_of (Submitted ch) = [ch]"
| "submitted_of x = []"

definition submitted :: "obs list \<Rightarrow> bytes AudioChunk list" where
  "submitted tr = concat (map submitted_of tr)"

fun taken_of :: "obs \<Rightarrow> bytes AudioChunk list" where
  "taken_of (Taken ch) = [ch]"
| "taken_of x = []"

definition taken :: "obs list \<Rightarrow> bytes AudioChunk list" where
  "taken tr = concat (map taken_of tr)"

fun emitted_of :: "obs \<Rightarrow> event list" where
  "emitted_of (EventEmitted ev) = [ev]"
| "emitted_of x = []"

definition emitted :: "obs list \<Rightarrow> event list" where
  "emitted tr = concat (map emitted_of tr)"

fun event_taken_of :: "obs \<Rightarrow> event list" where
  "event_taken_of (EventTaken ev) = [ev]"
| "event_taken_of x = []"

definition events_taken :: "obs list \<Rightarrow> event list" where
  "events_taken tr = concat (map event_taken_of tr)"

fun published_of :: "obs \<Rightarrow> TranscriptPiece list" where
  "published_of (TranscriptSent p) = [p]"
| "published_of x = []"

text \<open>The pieces sent on transcriptOutputChannel, in order.\<close>

definition published :: "obs list \<Rightarrow> TranscriptPiece list" where
  "published tr = concat (map published_of tr)"

fun is_send_on_closed :: "obs \<Rightarrow> bool" where
  "is_send_on_closed (TranscriptSendOnClosed p) = True"
| "is_send_on_closed x = False"

text \<open>The executions of line 191 on the closed channel.\<close>

definition sends_on_closed :: "obs list \<Rightarrow> obs list" where
  "sends_on_closed tr = filter is_send_on_closed tr"

section \<open>Invariants of the step relation\<close>

text \<open>
  The conduit of the sender, by the sender's position: sendDone has room for its one value
  until the sender sends it, and is open until the deferred close.
\<close>

definition sender_conduit :: "bridge \<Rightarrow> bool" where
  "sender_conduit s \<longleftrightarrow>
     cap (sendDone s) = 1 \<and>
     (case spc s of
        S_signal e \<Rightarrow>
          e \<noteq> None \<and> \<not> closed (sendDone s) \<and> buf (sendDone s) = [] \<and>
          signal_ops FromSender (trace s) = [] \<and> send_failures (trace s) \<noteq> []
      | S_defer \<Rightarrow>
          \<not> closed (sendDone s) \<and>
          (signal_ops FromSender (trace s) = [] \<and> buf (sendDone s) = [] \<and>
             send_failures (trace s) = [] \<or>
           (\<exists>m. signal_ops FromSender (trace s) = [SignalSent FromSender (Some m)] \<and>
                (buf (sendDone s) = [] \<or> buf (sendDone s) = [Some m])) \<and>
             send_failures (trace s) \<noteq> [])
      | S_panic \<Rightarrow> False
      | S_done \<Rightarrow>
          closed (sendDone s) \<and>
          (signal_ops FromSender (trace s) = [SignalClosed FromSender] \<and>
             buf (sendDone s) = [] \<and> send_failures (trace s) = [] \<or>
           (\<exists>m. signal_ops FromSender (trace s) =
                  [SignalSent FromSender (Some m), SignalClosed FromSender] \<and>
                (buf (sendDone s) = [] \<or> buf (sendDone s) = [Some m])) \<and>
             send_failures (trace s) \<noteq> [])
      | _ \<Rightarrow>
          \<not> closed (sendDone s) \<and> buf (sendDone s) = [] \<and>
          signal_ops FromSender (trace s) = [] \<and> send_failures (trace s) = [])"

definition receiver_conduit :: "bridge \<Rightarrow> bool" where
  "receiver_conduit s \<longleftrightarrow>
     cap (recvDone s) = 1 \<and>
     (case rpc s of
        R_signal e \<Rightarrow>
          e \<noteq> None \<and> \<not> closed (recvDone s) \<and> buf (recvDone s) = [] \<and>
          signal_ops FromReceiver (trace s) = []
      | R_defer \<Rightarrow>
          \<not> closed (recvDone s) \<and>
          (signal_ops FromReceiver (trace s) = [] \<and> buf (recvDone s) = [] \<or>
           (\<exists>m. signal_ops FromReceiver (trace s) = [SignalSent FromReceiver (Some m)] \<and>
                (buf (recvDone s) = [] \<or> buf (recvDone s) = [Some m])))
      | R_done \<Rightarrow>
          closed (recvDone s) \<and>
          (signal_ops FromReceiver (trace s) = [SignalClosed FromReceiver] \<and>
             buf (recvDone s) = [] \<or>
           (\<exists>m. signal_ops FromReceiver (trace s) =
                  [SignalSent FromReceiver (Some m), SignalClosed FromReceiver] \<and>
                (buf (recvDone s) = [] \<or> buf (recvDone s) = [Some m])))
      | _ \<Rightarrow>
          \<not> closed (recvDone s) \<and> buf (recvDone s) = [] \<and>
          signal_ops FromReceiver (trace s) = [])"

text \<open>What the closer sends on errOutputChannel for the error it holds (lines 222 to 227).\<close>

definition publish_ops :: "go_error \<Rightarrow> obs list" where
  "publish_ops e = (case e of None \<Rightarrow> [] | Some m \<Rightarrow> [ErrSent (Some m)])"

definition closer_inv :: "bridge \<Rightarrow> bool" where
  "closer_inv s \<longleftrightarrow>
     cap (errOutputChannel s) = 1 \<and>
     (case cpc s of
        C_select \<Rightarrow>
          observations (trace s) = [] \<and> closer_ops (trace s) = [] \<and>
          \<not> closed (transcriptOutputChannel s) \<and> \<not> closed (errOutputChannel s) \<and>
          buf (errOutputChannel s) = []
      | C_publish e \<Rightarrow>
          (\<exists>src. observations (trace s) = [(src, e)]) \<and> closer_ops (trace s) = [] \<and>
          \<not> closed (transcriptOutputChannel s) \<and> \<not> closed (errOutputChannel s) \<and>
          buf (errOutputChannel s) = []
      | C_close_transcript \<Rightarrow>
          length (observations (trace s)) = 1 \<and>
          closer_ops (trace s) = publish_ops (first_error (trace s)) \<and>
          \<not> closed (transcriptOutputChannel s) \<and> \<not> closed (errOutputChannel s)
      | C_close_err \<Rightarrow>
          length (observations (trace s)) = 1 \<and>
          closer_ops (trace s) = publish_ops (first_error (trace s)) @ [TranscriptClosed] \<and>
          closed (transcriptOutputChannel s) \<and> \<not> closed (errOutputChannel s)
      | C_done \<Rightarrow>
          length (observations (trace s)) = 1 \<and>
          closer_ops (trace s) =
            publish_ops (first_error (trace s)) @ [TranscriptClosed, ErrClosed] \<and>
          closed (transcriptOutputChannel s) \<and> closed (errOutputChannel s))"

text \<open>The Send calls that deliver the payloads of the given chunks, in order.\<close>

definition sends :: "bytes AudioChunk list \<Rightarrow> obs list" where
  "sends cs = map (\<lambda>c. StreamSend (PCM c)) cs"

definition nonfinal :: "bytes AudioChunk list \<Rightarrow> bool" where
  "nonfinal cs = list_all (\<lambda>c. \<not> Final c) cs"

text \<open>audioInputChannel is a queue: what was submitted is what was taken, then what waits.\<close>

definition queue_inv :: "bridge \<Rightarrow> bool" where
  "queue_inv s \<longleftrightarrow> submitted (trace s) = taken (trace s) @ buf (audioInputChannel s)"

text \<open>
  The three ways the sender leaves its loop: on a final chunk (line 157), on the closed
  input channel (line 172), on a failed Send (line 165); with the calls the remote stream
  has received by then.
\<close>

definition left_on_final :: "bridge \<Rightarrow> bool" where
  "left_on_final s \<longleftrightarrow>
     taken (trace s) \<noteq> [] \<and> Final (last (taken (trace s))) \<and>
     nonfinal (butlast (taken (trace s)))"

definition left_on_closed_input :: "bridge \<Rightarrow> bool" where
  "left_on_closed_input s \<longleftrightarrow>
     nonfinal (taken (trace s)) \<and> closed (audioInputChannel s) \<and>
     buf (audioInputChannel s) = []"

definition left_on_failure :: "bridge \<Rightarrow> bool" where
  "left_on_failure s \<longleftrightarrow>
     taken (trace s) \<noteq> [] \<and> nonfinal (taken (trace s)) \<and>
     stream_ops (trace s) =
       sends (butlast (taken (trace s))) @ [StreamSendFailed (PCM (last (taken (trace s))))]"

definition sender_left_loop :: "bridge \<Rightarrow> bool" where
  "sender_left_loop s \<longleftrightarrow>
     left_on_final s \<and>
       stream_ops (trace s) = sends (butlast (taken (trace s))) @ [StreamClose] \<or>
     left_on_closed_input s \<and> stream_ops (trace s) = sends (taken (trace s)) @ [StreamClose] \<or>
     left_on_failure s"

definition sender_inv :: "bridge \<Rightarrow> bool" where
  "sender_inv s \<longleftrightarrow>
     (case spc s of
        S_range \<Rightarrow>
          nonfinal (taken (trace s)) \<and> stream_ops (trace s) = sends (taken (trace s))
      | S_send ch \<Rightarrow>
          taken (trace s) \<noteq> [] \<and> last (taken (trace s)) = ch \<and>
          nonfinal (taken (trace s)) \<and>
          stream_ops (trace s) = sends (butlast (taken (trace s)))
      | S_close \<Rightarrow>
          left_on_final s \<and> stream_ops (trace s) = sends (butlast (taken (trace s))) \<or>
          left_on_closed_input s \<and> stream_ops (trace s) = sends (taken (trace s))
      | S_signal e \<Rightarrow> left_on_failure s
      | S_defer \<Rightarrow> sender_left_loop s
      | S_panic \<Rightarrow> sender_left_loop s
      | S_done \<Rightarrow> sender_left_loop s)"

text \<open>The sends line 191 still has to make for the event in hand.\<close>

definition pending :: "receiver_pc \<Rightarrow> TranscriptPiece list" where
  "pending pc = (case pc of R_publish ps \<Rightarrow> ps | _ \<Rightarrow> [])"

definition in_loop :: "receiver_pc \<Rightarrow> bool" where
  "in_loop pc = (case pc of R_range \<Rightarrow> True | R_publish ps \<Rightarrow> True | _ \<Rightarrow> False)"

definition receiver_inv :: "bridge \<Rightarrow> bool" where
  "receiver_inv s \<longleftrightarrow>
     emitted (trace s) = events_taken (trace s) @ events s \<and>
     prefix (published (trace s)) (concat (map pieces_of (events_taken (trace s)))) \<and>
     (sends_on_closed (trace s) = [] \<longrightarrow>
        published (trace s) @ pending (rpc s) =
          concat (map pieces_of (events_taken (trace s)))) \<and>
     (sends_on_closed (trace s) = [] \<longrightarrow> \<not> in_loop (rpc s) \<longrightarrow>
        events s = [] \<and> events_closed s) \<and>
     (sends_on_closed (trace s) \<noteq> [] \<longrightarrow> \<not> in_loop (rpc s))"

text \<open>
  How the process can die: only by the receiver's send on the closed
  transcriptOutputChannel, and only after the closer took the sender's signal.
\<close>

definition crash_inv :: "bridge \<Rightarrow> bool" where
  "crash_inv s \<longleftrightarrow>
     (crashed s \<longrightarrow> sends_on_closed (trace s) \<noteq> []) \<and>
     (rpc s = R_panic \<longrightarrow> sends_on_closed (trace s) \<noteq> []) \<and>
     (sends_on_closed (trace s) \<noteq> [] \<longrightarrow>
        (rpc s = R_panic \<or> rpc s = R_done \<and> crashed s) \<and>
        (\<exists>e. observations (trace s) = [(FromSender, e)])) \<and>
     ((\<exists>e. observations (trace s) = [(FromReceiver, e)]) \<longrightarrow>
        rpc s = R_defer \<or> rpc s = R_done) \<and>
     ((\<exists>e. observations (trace s) = [(FromSender, e)]) \<longrightarrow>
        signal_ops FromSender (trace s) \<noteq> [])"

definition invariants :: "bridge \<Rightarrow> bool" where
  "invariants s \<longleftrightarrow>
     sender_conduit s \<and> receiver_conduit s \<and> closer_inv s \<and> queue_inv s \<and>
     sender_inv s \<and> receiver_inv s \<and> crash_inv s"

section \<open>Statements about executions\<close>

text \<open>The positions of the sender before its call of Close.\<close>

definition before_close :: "sender_pc \<Rightarrow> bool" where
  "before_close pc = (case pc of S_range \<Rightarrow> True | S_send ch \<Rightarrow> True | S_close \<Rightarrow> True | _ \<Rightarrow> False)"

text \<open>
  The specification's view of an event: the fragments of a recognizable transcript event
  are the alternatives whose transcript is not null, in the order of the event, each with
  its text and the partial flag of the result it belongs to. An event of another kind, or
  without a transcript, has none.
\<close>

fun fragments :: "event \<Rightarrow> (string \<times> bool) list" where
  "fragments (TranscriptEvent (Some results)) =
     concat (map (\<lambda>res. map (\<lambda>t. (t, IsPartial res))
                           (List.map_filter Transcript (Alternatives res))) results)"
| "fragments (TranscriptEvent None) = []"
| "fragments (OtherEvent kind) = []"

definition to_piece :: "string \<times> bool \<Rightarrow> TranscriptPiece" where
  "to_piece f = \<lparr>Text = fst f, Partial = snd f\<rparr>"

subsection \<open>Concrete executions\<close>

definition audio_chunk :: "bytes AudioChunk" where
  "audio_chunk = \<lparr>PCM = ''ab'', TsMs = 0, Final = False\<rparr>"

definition final_chunk :: "bytes AudioChunk" where
  "final_chunk = \<lparr>PCM = [], TsMs = 100, Final = True\<rparr>"

definition hello_event :: event where
  "hello_event =
     TranscriptEvent (Some
       [\<lparr>Alternatives = [\<lparr>Transcript = Some ''hel''\<rparr>, \<lparr>Transcript = None\<rparr>], IsPartial = True\<rparr>,
        \<lparr>Alternatives = [\<lparr>Transcript = Some ''hello''\<rparr>], IsPartial = False\<rparr>])"

text \<open>
  One chunk, then the final chunk; every Send succeeds; the sender runs to its end and the
  closer after it.
\<close>

definition graceful_run :: "action list" where
  "graceful_run =
     [Submit audio_chunk, SenderStep None, SenderStep None,
      Submit final_chunk, SenderStep None, SenderStep None, SenderStep None,
      CloserStep FromSender, CloserStep FromSender, CloserStep FromSender,
      CloserStep FromSender]"

text \<open>One chunk whose Send fails; the sender runs to its end and the closer after it.\<close>

definition failed_send_run :: "action list" where
  "failed_send_run =
     [Submit audio_chunk, SenderStep None, SenderStep (Some ''broken pipe''),
      SenderStep None, SenderStep None,
      CloserStep FromSender, CloserStep FromSender, CloserStep FromSender,
      CloserStep FromSender]"

text \<open>
  The remote session ends its event stream at once, without an error; the receiver runs to
  its end and the closer after it, while the sender waits for input.
\<close>

definition receiver_first_run :: "action list" where
  "receiver_first_run =
     [RemoteEnd None, ReceiverStep, ReceiverStep, ReceiverStep,
      CloserStep FromReceiver, CloserStep FromReceiver, CloserStep FromReceiver,
      CloserStep FromReceiver]"

text \<open>
  The caller sends the final chunk; the sender closes the stream and returns; the closer
  takes the sender's signal and closes transcriptOutputChannel; then an event of the
  remote session reaches the receiver.
\<close>

definition sender_first_run :: "action list" where
  "sender_first_run =
     [Submit final_chunk, SenderStep None, SenderStep None, SenderStep None,
      CloserStep FromSender, CloserStep FromSender, CloserStep FromSender,
      RemoteEmit hello_event, ReceiverStep, ReceiverStep]"

text \<open>
  The remote session emits a transcript event and an event of another kind, then ends its
  stream with an error; the receiver runs to its end. The caller closes the input channel
  without a final chunk; the sender runs to its end.
\<close>

definition transcript_run :: "action list" where
  "transcript_run =
     [RemoteEmit hello_event, RemoteEmit (OtherEvent ''BadRequestException''),
      RemoteEnd (Some ''eof''),
      ReceiverStep, ReceiverStep, ReceiverStep, ReceiverStep, ReceiverStep, ReceiverStep,
      ReceiverStep, ReceiverStep, ReceiverStep, ReceiverStep,
      CloseInput, SenderStep None, SenderStep None, SenderStep None]"

text \<open>The state at the end of \<open>failed_send_run\<close>.\<close>

definition failed_send_end :: bridge where
  "failed_send_end =
     \<lparr>audioInputChannel = \<lparr>buf = [], cap = 16, closed = False\<rparr>,
        transcriptOutputChannel = \<lparr>buf = [], cap = 32, closed = True\<rparr>,
        errOutputChannel =
          \<lparr>buf = [Some ''send audio: broken pipe''], cap = 1, closed = True\<rparr>,
        sendDone = \<lparr>buf = [], cap = 1, closed = True\<rparr>,
        recvDone = \<lparr>buf = [], cap = 1, closed = False\<rparr>, events = [],
        events_closed = False, stream_err = None, spc = S_done, rpc = R_range,
        cpc = C_done, crashed = False,
        trace =
          [Submitted \<lparr>PCM = ''ab'', TsMs = 0, Final = False\<rparr>,
           Taken \<lparr>PCM = ''ab'', TsMs = 0, Final = False\<rparr>,
           StreamSendFailed ''ab'',
           SignalSent FromSender (Some ''send audio: broken pipe''),
           SignalClosed FromSender,
           Observed FromSender (Some ''send audio: broken pipe''),
           ErrSent (Some ''send audio: broken pipe''), TranscriptClosed,
           ErrClosed]\<rparr>"

text \<open>The state at the end of \<open>receiver_first_run\<close>.\<close>

definition receiver_first_end :: bridge where
  "receiver_first_end =
     \<lparr>audioInputChannel = \<lparr>buf = [], cap = 16, closed = False\<rparr>,
        transcriptOutputChannel = \<lparr>buf = [], cap = 32, closed = True\<rparr>,
        errOutputChannel = \<lparr>buf = [], cap = 1, closed = True\<rparr>,
        sendDone = \<lparr>buf = [], cap = 1, closed = False\<rparr>,
        recvDone = \<lparr>buf = [], cap = 1, closed = True\<rparr>, events = [],
        events_closed = True, stream_err = None, spc = S_range, rpc = R_done,
        cpc = C_done, crashed = False,
        trace =
          [EventsEnded None, SignalClosed FromReceiver,
           Observed FromReceiver None, TranscriptClosed, ErrClosed]\<rparr>"

text \<open>The state at the end of \<open>transcript_run\<close>.\<close>

definition transcript_end :: bridge where
  "transcript_end =
     \<lparr>audioInputChannel = \<lparr>buf = [], cap = 16, closed = True\<rparr>,
        transcriptOutputChannel =
          \<lparr>buf =
             [\<lparr>Text = ''hel'', Partial = True\<rparr>,
              \<lparr>Text = ''hello'', Partial = False\<rparr>],
             cap = 32, closed = False\<rparr>,
        errOutputChannel = \<lparr>buf = [], cap = 1, closed = False\<rparr>,
        sendDone = \<lparr>buf = [], cap = 1, closed = True\<rparr>,
        recvDone = \<lparr>buf = [Some ''receive: eof''], cap = 1, closed = True\<rparr>,
        events = [], events_closed = True, stream_err = Some ''eof'',
        spc = S_done, rpc = R_done, cpc = C_select, crashed = False,
        trace =
          [EventEmitted
            (TranscriptEvent
              (Some
                [\<lparr>Alternatives =
                    [\<lparr>Transcript = Some ''hel''\<rparr>, \<lparr>Transcript = None\<rparr>],
                    IsPartial = True\<rparr>,
                 \<lparr>Alternatives = [\<lparr>Transcript = Some ''hello''\<rparr>],
                    IsPartial = False\<rparr>])),
           EventEmitted (OtherEvent ''BadRequestException''),
           EventsEnded (Some ''eof''),
           EventTaken
            (TranscriptEvent
              (Some
                [\<lparr>Alternatives =
                    [\<lparr>Transcript = Some ''hel''\<rparr>, \<lparr>Transcript = None\<rparr>],
                    IsPartial = True\<rparr>,
                 \<lparr>Alternatives = [\<lparr>Transcript = Some ''hello''\<rparr>],
                    IsPartial = False\<rparr>])),
           TranscriptSent \<lparr>Text = ''hel'', Partial = True\<rparr>,
           TranscriptSent \<lparr>Text = ''hello'', Partial = False\<rparr>,
           EventTaken (OtherEvent ''BadRequestException''),
           SignalSent FromReceiver (Some ''receive: eof''),
           SignalClosed FromReceiver, InputClosed, StreamClose,
           SignalClosed FromSender]\<rparr>"

text \<open>The state at the end of \<open>graceful_run\<close>.\<close>

definition graceful_end :: bridge where
  "graceful_end =
     \<lparr>audioInputChannel = \<lparr>buf = [], cap = 16, closed = False\<rparr>,
        transcriptOutputChannel = \<lparr>buf = [], cap = 32, closed = True\<rparr>,
        errOutputChannel = \<lparr>buf = [], cap = 1, closed = True\<rparr>,
        sendDone = \<lparr>buf = [], cap = 1, closed = True\<rparr>,
        recvDone = \<lparr>buf = [], cap = 1, closed = False\<rparr>, events = [],
        events_closed = False, stream_err = None, spc = S_done, rpc = R_range,
        cpc = C_done, crashed = False,
        trace =
          [Submitted \<lparr>PCM = ''ab'', TsMs = 0, Final = False\<rparr>,
           Taken \<lparr>PCM = ''ab'', TsMs = 0, Final = False\<rparr>, StreamSend ''ab'',
           Submitted \<lparr>PCM = [], TsMs = 100, Final = True\<rparr>,
           Taken \<lparr>PCM = [], TsMs = 100, Final = True\<rparr>, StreamClose,
           SignalClosed FromSender, Observed FromSender None, TranscriptClosed,
           ErrClosed]\<rparr>"

text \<open>The state at the end of \<open>sender_first_run\<close>.\<close>

definition sender_first_end :: bridge where
  "sender_first_end =
     \<lparr>audioInputChannel = \<lparr>buf = [], cap = 16, closed = False\<rparr>,
        transcriptOutputChannel = \<lparr>buf = [], cap = 32, closed = True\<rparr>,
        errOutputChannel = \<lparr>buf = [], cap = 1, closed = False\<rparr>,
        sendDone = \<lparr>buf = [], cap = 1, closed = True\<rparr>,
        recvDone = \<lparr>buf = [], cap = 1, closed = False\<rparr>, events = [],
        events_closed = False, stream_err = None, spc = S_done, rpc = R_panic,
        cpc = C_close_err, crashed = False,
        trace =
          [Submitted \<lparr>PCM = [], TsMs = 100, Final = True\<rparr>,
           Taken \<lparr>PCM = [], TsMs = 100, Final = True\<rparr>, StreamClose,
           SignalClosed FromSender, Observed FromSender None, TranscriptClosed,
           EventEmitted
            (TranscriptEvent
              (Some
                [\<lparr>Alternatives =
                    [\<lparr>Transcript = Some ''hel''\<rparr>, \<lparr>Transcript = None\<rparr>],
                    IsPartial = True\<rparr>,
                 \<lparr>Alternatives = [\<lparr>Transcript = Some ''hello''\<rparr>],
                    IsPartial = False\<rparr>])),
           EventTaken
            (TranscriptEvent
              (Some
                [\<lparr>Alternatives =
                    [\<lparr>Transcript = Some ''hel''\<rparr>, \<lparr>Transcript = None\<rparr>],
                    IsPartial = True\<rparr>,
                 \<lparr>Alternatives = [\<lparr>Transcript = Some ''hello''\<rparr>],
                    IsPartial = False\<rparr>])),
           TranscriptSendOnClosed \<lparr>Text = ''hel'', Partial = True\<rparr>]\<rparr>"

text \<open>
  The first three steps of \<open>failed_send_run\<close>: the sender holds the error of the
  failed Send and is about to send it on sendDone.
\<close>

definition signalling_run :: "action list" where
  "signalling_run = [Submit audio_chunk, SenderStep None, SenderStep (Some ''broken pipe'')]"

definition signalling_end :: bridge where
  "signalling_end =
     \<lparr>audioInputChannel = \<lparr>buf = [], cap = 16, closed = False\<rparr>,
        transcriptOutputChannel = \<lparr>buf = [], cap = 32, closed = False\<rparr>,
        errOutputChannel = \<lparr>buf = [], cap = 1, closed = False\<rparr>,
        sendDone = \<lparr>buf = [], cap = 1, closed = False\<rparr>,
        recvDone = \<lparr>buf = [], cap = 1, closed = False\<rparr>, events = [],
        events_closed = False, stream_err = None,
        spc = S_signal (Some ''send audio: broken pipe''), rpc = R_range,
        cpc = C_select, crashed = False,
        trace =
          [Submitted \<lparr>PCM = ''ab'', TsMs = 0, Final = False\<rparr>,
           Taken \<lparr>PCM = ''ab'', TsMs = 0, Final = False\<rparr>,
           StreamSendFailed ''ab'']\<rparr>"

text \<open>
  \<open>sender_first_run\<close> and one more step of the receiver: the deferred call of the
  panicking receiver runs, and the process dies.
\<close>

definition dead_run :: "action list" where
  "dead_run = sender_first_run @ [ReceiverStep]"

definition dead_end :: bridge where
  "dead_end =
     \<lparr>audioInputChannel = \<lparr>buf = [], cap = 16, closed = False\<rparr>,
        transcriptOutputChannel = \<lparr>buf = [], cap = 32, closed = True\<rparr>,
        errOutputChannel = \<lparr>buf = [], cap = 1, closed = False\<rparr>,
        sendDone = \<lparr>buf = [], cap = 1, closed = True\<rparr>,
        recvDone = \<lparr>buf = [], cap = 1, closed = True\<rparr>, events = [],
        events_closed = False, stream_err = None, spc = S_done, rpc = R_done,
        cpc = C_close_err, crashed = True,
        trace =
          [Submitted \<lparr>PCM = [], TsMs = 100, Final = True\<rparr>,
           Taken \<lparr>PCM = [], TsMs = 100, Final = True\<rparr>, StreamClose,
           SignalClosed FromSender, Observed FromSender None, TranscriptClosed,
           EventEmitted
            (TranscriptEvent
              (Some
                [\<lparr>Alternatives =
                    [\<lparr>Transcript = Some ''hel''\<rparr>, \<lparr>Transcript = None\<rparr>],
                    IsPartial = True\<rparr>,
                 \<lparr>Alternatives = [\<lparr>Transcript = Some ''hello''\<rparr>],
                    IsPartial = False\<rparr>])),
           EventTaken
            (TranscriptEvent
              (Some
                [\<lparr>Alternatives =
                    [\<lparr>Transcript = Some ''hel''\<rparr>, \<lparr>Transcript = None\<rparr>],
                    IsPartial = True\<rparr>,
                 \<lparr>Alternatives = [\<lparr>Transcript = Some ''hello''\<rparr>],
                    IsPartial = False\<rparr>])),
           TranscriptSendOnClosed \<lparr>Text = ''hel'', Partial = True\<rparr>,
           SignalClosed FromReceiver]\<rparr>"

section \<open>The start of the bridge (audio.go, lines 116 to 129 and 238)\<close>

datatype goroutine = SenderGoroutine | ReceiverGoroutine | CloserGoroutine

datatype channel_name =
  AudioInputChannel | TranscriptOutputChannel | ErrOutputChannel | SendDoneChannel
  | RecvDoneChannel

text \<open>
  What a call of runTranscribeStream returns and leaves behind: the three channel handles
  and the error it returns (\<open>None\<close> is nil), the channels it made, the goroutines it
  started, and the state of the bridge they run in.
\<close>

record started =
  ret_audio :: "channel_name option"
  ret_transcript :: "channel_name option"
  ret_errors :: "channel_name option"
  ret_err :: go_error
  channels_made :: "channel_name list"
  goroutines_started :: "goroutine list"
  running :: "bridge option"

text \<open>
  \<open>start_err\<close> is the error of \<^verbatim>\<open>client.StartStreamTranscription\<close>: the outcome of
  establishing the remote session.
\<close>

definition runTranscribeStream :: "go_error \<Rightarrow> started" where
  "runTranscribeStream start_err =
     (case start_err of
        Some msg \<Rightarrow>
          \<lparr>ret_audio = None, ret_transcript = None, ret_errors = None, ret_err = Some msg,
           channels_made = [], goroutines_started = [], running = None\<rparr>
      | None \<Rightarrow>
          \<lparr>ret_audio = Some AudioInputChannel, ret_transcript = Some TranscriptOutputChannel,
           ret_errors = Some ErrOutputChannel, ret_err = None,
           channels_made =
             [AudioInputChannel, TranscriptOutputChannel, ErrOutputChannel, SendDoneChannel,
              RecvDoneChannel],
           goroutines_started = [SenderGoroutine, ReceiverGoroutine, CloserGoroutine],
           running = Some init\<rparr>)"

section \<open>The writer loop of endpoints.go\<close>

definition dq :: char where
  "dq = CHR 0x22"

definition backslash :: char where
  "backslash = CHR 0x5C"

text \<open>The verb \<^verbatim>\<open>%t\<close> of fmt.\<close>

definition format_bool :: "bool \<Rightarrow> string" where
  "format_bool b = (if b then ''true'' else ''false'')"

text \<open>
  Line 125: \<^verbatim>\<open>fmt.Sprintf(`{"text":"%s","partial":%t}`, piece.Text, piece.Partial)\<close>.
  The verb \<^verbatim>\<open>%s\<close> writes the text as it is.
\<close>

definition jsonMsg :: "TranscriptPiece \<Rightarrow> string" where
  \<open>jsonMsg piece =
     ''{"text":"'' @ Text piece @ ''","partial":'' @ format_bool (Partial piece) @ ''}''\<close>

subsection \<open>What a serialized object is\<close>

text \<open>
  The specification's side: a decoder of serialized objects whose values are strings and
  booleans, written without white space, after the grammar of JSON. A string ends at the
  first quote that is not escaped; a backslash escapes the next character; a control
  character cannot stand in a string.
\<close>

datatype jvalue = JString string | JBool bool

definition unescape :: "char \<Rightarrow> char option" where
  "unescape e =
     (if e = dq then Some dq
      else if e = backslash then Some backslash
      else if e = CHR ''/'' then Some CHR ''/''
      else if e = CHR ''b'' then Some (CHR 0x08)
      else if e = CHR ''f'' then Some (CHR 0x0C)
      else if e = CHR ''n'' then Some (CHR 0x0A)
      else if e = CHR ''r'' then Some (CHR 0x0D)
      else if e = CHR ''t'' then Some (CHR 0x09)
      else None)"

definition is_control :: "char \<Rightarrow> bool" where
  "is_control c \<longleftrightarrow> (of_char c :: nat) < 32"

text \<open>The rest of a string after its opening quote: the decoded text and what follows.\<close>

fun json_string :: "string \<Rightarrow> (string \<times> string) option" where
  "json_string [] = None"
| "json_string (c # cs) =
     (if c = dq then Some ([], cs)
      else if c = backslash then
        (case cs of
           [] \<Rightarrow> None
         | e # rest \<Rightarrow>
             (case unescape e of
                None \<Rightarrow> None
              | Some d \<Rightarrow>
                  (case json_string rest of
                     None \<Rightarrow> None
                   | Some (t, r) \<Rightarrow> Some (d # t, r))))
      else if is_control c then None
      else (case json_string cs of None \<Rightarrow> None | Some (t, r) \<Rightarrow> Some (c # t, r)))"

definition json_value :: "string \<Rightarrow> (jvalue \<times> string) option" where
  "json_value s =
     (if take 1 s = [dq] then
        (case json_string (drop 1 s) of None \<Rightarrow> None | Some (t, r) \<Rightarrow> Some (JString t, r))
      else if take 4 s = ''true'' then Some (JBool True, drop 4 s)
      else if take 5 s = ''false'' then Some (JBool False, drop 5 s)
      else None)"

text \<open>One member, \<^verbatim>\<open>"key":value\<close>, and what follows it.\<close>

definition json_member :: "string \<Rightarrow> ((string \<times> jvalue) \<times> string) option" where
  "json_member s =
     (if take 1 s = [dq] then
        (case json_string (drop 1 s) of
           None \<Rightarrow> None
         | Some (k, r) \<Rightarrow>
             (if take 1 r = '':'' then
                (case json_value (drop 1 r) of
                   None \<Rightarrow> None
                 | Some (v, r') \<Rightarrow> Some ((k, v), r'))
              else None))
      else None)"

text \<open>
  The members of an object after its opening brace, up to the closing brace, which must
  end the text. The first argument bounds the number of members; the length of the text
  is always enough.
\<close>

fun json_members :: "nat \<Rightarrow> string \<Rightarrow> (string \<times> jvalue) list option" where
  "json_members 0 s = None"
| "json_members (Suc n) s =
     (case json_member s of
        None \<Rightarrow> None
      | Some (m, r) \<Rightarrow>
          (if r = ''}'' then Some [m]
           else if take 1 r = '','' then
             (case json_members n (drop 1 r) of None \<Rightarrow> None | Some ms \<Rightarrow> Some (m # ms))
           else None))"

definition parse_object :: "string \<Rightarrow> (string \<times> jvalue) list option" where
  "parse_object s =
     (if s = ''{}'' then Some []
      else if take 1 s = ''{'' then json_members (length s) (drop 1 s)
      else None)"

text \<open>
  A frame is the serialized form of a piece when it decodes to an object with exactly the
  two fields \<^verbatim>\<open>text\<close>, the piece's text as a string, and \<^verbatim>\<open>partial\<close>, the piece's
  flag as a boolean.
\<close>

definition serializes :: "string \<Rightarrow> TranscriptPiece \<Rightarrow> bool" where
  "serializes s piece \<longleftrightarrow>
     parse_object s = Some [(''text'', JString (Text piece)), (''partial'', JBool (Partial piece))]"

text \<open>The texts that need no escaping in a serialized string.\<close>

definition plain :: "string \<Rightarrow> bool" where
  "plain t = list_all (\<lambda>c. c \<noteq> dq \<and> c \<noteq> backslash \<and> \<not> is_control c) t"

definition quoted_piece :: TranscriptPiece where
  \<open>quoted_piece = \<lparr>Text = ''say "hi"'', Partial = False\<rparr>\<close>

definition injecting_piece :: TranscriptPiece where
  \<open>injecting_piece = \<lparr>Text = ''","partial":true,"x":"'', Partial = False\<rparr>\<close>

section \<open>The reader goroutine of endpoints.go (lines 76 to 113)\<close>

text \<open>
  What \<^verbatim>\<open>conn.ReadMessage()\<close> returns: a message with its type and bytes, or an
  error. The message types are the constants of the websocket library.
\<close>

datatype read_result = Message int bytes | ReadFailed string

definition TextMessage :: int where
  "TextMessage = 1"

definition BinaryMessage :: int where
  "BinaryMessage = 2"

definition chunkMs :: "64 word" where
  "chunkMs = 100"

text \<open>
  Byte slices are references into a store of byte arrays. \<^verbatim>\<open>ReadMessage\<close> returns
  \<^verbatim>\<open>data\<close> as a slice of the connection's one receive buffer, which every read
  overwrites; \<^verbatim>\<open>make\<close> takes the next unused address. The \<^verbatim>\<open>PCM\<close> of a chunk is a
  slice: nil, or the address of its array.
\<close>

type_synonym addr = nat

definition conn_buffer :: addr where
  "conn_buffer = 0"

text \<open>
  The positions of the reader: the read of line 80; the send of an audio chunk (line 97),
  which is followed by the advance of the timestamp; the send of the final chunk (lines 83
  and 104), which is followed by the return. A send on audioIn blocks while the channel,
  of capacity 16, is full.
\<close>

datatype reader_pc =
    Rd_read
  | Rd_send_audio "addr option AudioChunk"
  | Rd_send_final "addr option AudioChunk"
  | Rd_panic
  | Rd_done

record reader =
  heap :: "addr \<Rightarrow> bytes"
  next_free :: addr
  tsMs :: "64 word"
  audioIn :: "addr option AudioChunk chan"
  rdpc :: reader_pc
  reads :: "read_result list"            \<comment> \<open>history: what the reads returned, oldest first\<close>
  sent :: "addr option AudioChunk list"  \<comment> \<open>history: the chunks sent on audioIn\<close>

definition reader_init :: reader where
  "reader_init =
     \<lparr>heap = (\<lambda>a. []), next_free = 1, tsMs = 0, audioIn = make_chan 16, rdpc = Rd_read,
      reads = [], sent = []\<rparr>"

text \<open>
  Lines 95 and 96: a new array of the length of \<^verbatim>\<open>data\<close> and the copy of the receive
  buffer into it; the chunk of line 97 holds the new array.
\<close>

definition copy_payload :: "reader \<Rightarrow> reader" where
  "copy_payload r =
     r\<lparr>heap := (heap r)(next_free r := heap r conn_buffer),
       next_free := Suc (next_free r),
       rdpc := Rd_send_audio \<lparr>PCM = Some (next_free r), TsMs = tsMs r, Final = False\<rparr>\<rparr>"

text \<open>\<^verbatim>\<open>AudioChunk{Final: true, TsMs: tsMs}\<close>, about to be sent.\<close>

definition signal_final :: "reader \<Rightarrow> reader" where
  "signal_final r = r\<lparr>rdpc := Rd_send_final \<lparr>PCM = None, TsMs = tsMs r, Final = True\<rparr>\<rparr>"

text \<open>
  Lines 80 to 111, from the return of the read to the next statement that can block: the
  next read, or a send on audioIn.
\<close>

definition read_message :: "read_result \<Rightarrow> reader \<Rightarrow> reader" where
  "read_message res r =
     (case res of
        ReadFailed msg \<Rightarrow> signal_final r
      | Message mt bs \<Rightarrow>
          (if mt = BinaryMessage then copy_payload (r\<lparr>heap := (heap r)(conn_buffer := bs)\<rparr>)
           else if mt = TextMessage then
             (if bs = ''END'' then signal_final (r\<lparr>heap := (heap r)(conn_buffer := bs)\<rparr>)
              else r\<lparr>heap := (heap r)(conn_buffer := bs)\<rparr>)
           else r\<lparr>heap := (heap r)(conn_buffer := bs)\<rparr>))"

text \<open>
  The steps of the reader and of its environment: the connection, which decides what a read
  returns, and the consumer of audioIn (the sender of the bridge), which takes a chunk from
  the channel when it runs. \<open>None\<close> means that the step cannot be taken.
\<close>

datatype reader_action = ReadReturns read_result | SendChunk | Drain

definition reader_step :: "reader_action \<Rightarrow> reader \<Rightarrow> reader option" where
  "reader_step a r =
     (case a of
        ReadReturns res \<Rightarrow>
          (case rdpc r of
             Rd_read \<Rightarrow> Some (read_message res (r\<lparr>reads := reads r @ [res]\<rparr>))
           | _ \<Rightarrow> None)
      | SendChunk \<Rightarrow>
          (case rdpc r of
             Rd_send_audio ch \<Rightarrow>
               (case chan_send (audioIn r) ch of
                  Sent c \<Rightarrow>
                    Some (r\<lparr>audioIn := c, sent := sent r @ [ch], tsMs := tsMs r + chunkMs,
                            rdpc := Rd_read\<rparr>)
                | SendBlocks \<Rightarrow> None
                | SendPanics \<Rightarrow> Some (r\<lparr>rdpc := Rd_panic\<rparr>))
           | Rd_send_final ch \<Rightarrow>
               (case chan_send (audioIn r) ch of
                  Sent c \<Rightarrow> Some (r\<lparr>audioIn := c, sent := sent r @ [ch], rdpc := Rd_done\<rparr>)
                | SendBlocks \<Rightarrow> None
                | SendPanics \<Rightarrow> Some (r\<lparr>rdpc := Rd_panic\<rparr>))
           | _ \<Rightarrow> None)
      | Drain \<Rightarrow>
          (case chan_recv (audioIn r) of
             Received (Some ch) c \<Rightarrow> Some (r\<lparr>audioIn := c\<rparr>)
           | _ \<Rightarrow> None))"

fun reader_run :: "reader_action list \<Rightarrow> reader \<Rightarrow> reader option" where
  "reader_run [] r = Some r"
| "reader_run (a # as) r =
     (case reader_step a r of None \<Rightarrow> None | Some r' \<Rightarrow> reader_run as r')"

subsection \<open>What the reader is to produce\<close>

text \<open>A read ends the input when it fails or brings the text \<^verbatim>\<open>END\<close>.\<close>

definition ends_input :: "read_result \<Rightarrow> bool" where
  "ends_input res =
     (case res of ReadFailed msg \<Rightarrow> True | Message mt bs \<Rightarrow> mt = TextMessage \<and> bs = ''END'')"

definition binary_payload :: "read_result \<Rightarrow> bytes list" where
  "binary_payload res =
     (case res of
        ReadFailed msg \<Rightarrow> []
      | Message mt bs \<Rightarrow> if mt = BinaryMessage then [bs] else [])"

text \<open>The bytes of the binary frames that come before the end of the input.\<close>

definition payloads :: "read_result list \<Rightarrow> bytes list" where
  "payloads rs = concat (map binary_payload (takeWhile (\<lambda>res. \<not> ends_input res) rs))"

definition terminated :: "read_result list \<Rightarrow> bool" where
  "terminated rs = list_ex ends_input rs"

text \<open>
  The unit of the binary frame number \<open>k\<close>, counted from 0: its own array, at the address
  \<open>k + 1\<close>, and the timestamp \<open>100 k\<close> in 64 bits. The terminal unit after \<open>n\<close>
  binary frames.
\<close>

definition audio_unit :: "nat \<Rightarrow> addr option AudioChunk" where
  "audio_unit k = \<lparr>PCM = Some (Suc k), TsMs = of_nat (100 * k), Final = False\<rparr>"

definition terminal_unit :: "nat \<Rightarrow> addr option AudioChunk" where
  "terminal_unit n = \<lparr>PCM = None, TsMs = of_nat (100 * n), Final = True\<rparr>"

definition expected_units :: "read_result list \<Rightarrow> addr option AudioChunk list" where
  "expected_units rs =
     map audio_unit [0..<length (payloads rs)] @
     (if terminated rs then [terminal_unit (length (payloads rs))] else [])"

text \<open>The timestamps of the units, read as the signed integers they are.\<close>

definition timestamps :: "addr option AudioChunk list \<Rightarrow> int list" where
  "timestamps us = map (\<lambda>u. sint (TsMs u)) us"

text \<open>The largest number of binary frames whose timestamps all fit an int64.\<close>

definition ts_bound :: nat where
  "ts_bound = 92233720368547758"

text \<open>The chunk the reader is about to send, if it is at a send.\<close>

definition in_hand :: "reader_pc \<Rightarrow> addr option AudioChunk list" where
  "in_hand pc = (case pc of Rd_send_audio ch \<Rightarrow> [ch] | Rd_send_final ch \<Rightarrow> [ch] | _ \<Rightarrow> [])"

definition at_send :: "reader_pc \<Rightarrow> bool" where
  "at_send pc = (case pc of Rd_send_audio ch \<Rightarrow> True | Rd_send_final ch \<Rightarrow> True | _ \<Rightarrow> False)"

text \<open>
  The invariant of the reader, by its position. The reads stop at the first one that ends
  the input; every binary frame read has its own array, which holds the frame's bytes; the
  units sent, with the one in hand, are the expected units of the reads.
\<close>

definition reader_inv :: "reader \<Rightarrow> bool" where
  "reader_inv r \<longleftrightarrow>
     cap (audioIn r) = 16 \<and> \<not> closed (audioIn r) \<and>
     next_free r = Suc (length (payloads (reads r))) \<and>
     \<not> terminated (butlast (reads r)) \<and>
     map (\<lambda>k. heap r (Suc k)) [0..<length (payloads (reads r))] = payloads (reads r) \<and>
     sent r @ in_hand (rdpc r) = expected_units (reads r) \<and>
     (case rdpc r of
        Rd_read \<Rightarrow>
          \<not> terminated (reads r) \<and> tsMs r = of_nat (100 * length (payloads (reads r)))
      | Rd_send_audio ch \<Rightarrow>
          \<not> terminated (reads r) \<and> payloads (reads r) \<noteq> [] \<and>
          tsMs r = of_nat (100 * (length (payloads (reads r)) - 1))
      | Rd_send_final ch \<Rightarrow> terminated (reads r)
      | Rd_panic \<Rightarrow> False
      | Rd_done \<Rightarrow> terminated (reads r))"

subsection \<open>Concrete executions of the reader\<close>

text \<open>
  Two binary frames, a control frame and a text frame between them, then \<^verbatim>\<open>END\<close>; the
  consumer takes one chunk.
\<close>

definition sample_schedule :: "reader_action list" where
  "sample_schedule =
     [ReadReturns (Message 2 ''ab''), SendChunk, ReadReturns (Message 9 ''ping''),
      ReadReturns (Message 1 ''hello''), ReadReturns (Message 2 ''cd''), SendChunk, Drain,
      ReadReturns (Message 1 ''END''), SendChunk]"

text \<open>
  \<open>n\<close> binary frames, each sent and taken by the consumer; and one binary frame more
  than \<open>ts_bound\<close> followed by a failure of the connection.
\<close>

definition drained_frames :: "nat \<Rightarrow> reader_action list" where
  "drained_frames n = concat (replicate n [ReadReturns (Message 2 []), SendChunk, Drain])"

definition long_schedule :: "reader_action list" where
  "long_schedule =
     drained_frames 92233720368547759 @ [ReadReturns (ReadFailed ''closed''), SendChunk]"

definition long_reads :: "read_result list" where
  "long_reads = replicate 92233720368547759 (Message 2 []) @ [ReadFailed ''closed'']"

text \<open>
  \<open>n\<close> binary frames, each sent, while the consumer takes nothing; and sixteen of them
  followed by \<^verbatim>\<open>END\<close>.
\<close>

definition queued_frames :: "nat \<Rightarrow> reader_action list" where
  "queued_frames n = concat (replicate n [ReadReturns (Message 2 []), SendChunk])"

definition full_queue_schedule :: "reader_action list" where
  "full_queue_schedule = queued_frames 16 @ [ReadReturns (Message 1 ''END'')]"

text \<open>
  A schedule for the chunks \<open>cs\<close> and a final chunk in which every Send succeeds: the
  caller submits a chunk, the sender takes it and sends it, and so on; after the final
  chunk the sender calls Close and runs its deferred close.
\<close>

definition forward_schedule :: "bytes AudioChunk list \<Rightarrow> action list" where
  "forward_schedule cs = concat (map (\<lambda>c. [Submit c, SenderStep None, SenderStep None]) cs)"

definition full_schedule :: "bytes AudioChunk list \<Rightarrow> bytes AudioChunk \<Rightarrow> action list" where
  "full_schedule cs fin =
     forward_schedule cs @ [Submit fin, SenderStep None, SenderStep None, SenderStep None]"

text \<open>The sender waits for input, and nothing else has happened to its channels.\<close>

definition idle :: "bridge \<Rightarrow> bool" where
  "idle s \<longleftrightarrow>
     spc s = S_range \<and> audioInputChannel s = make_chan 16 \<and> sendDone s = make_chan 1 \<and>
     \<not> crashed s"

section \<open>Frames: what a step of one task leaves unchanged\<close>

lemmas chan_defs = chan_send_def chan_recv_def chan_close_def

lemmas projection_defs =
  signal_ops_def stream_ops_def stream_closes_def send_failures_def closer_ops_def
  observations_def errors_published_def submitted_def taken_def emitted_def
  events_taken_def published_def sends_on_closed_def

lemma sender_step_frame:
  assumes "sender_step r s = Some s'"
  shows "rpc s' = rpc s" and "cpc s' = cpc s" and "recvDone s' = recvDone s"
    and "transcriptOutputChannel s' = transcriptOutputChannel s"
    and "errOutputChannel s' = errOutputChannel s"
    and "events s' = events s" and "events_closed s' = events_closed s"
    and "stream_err s' = stream_err s"
    and "closed (audioInputChannel s') = closed (audioInputChannel s)"
    and "cap (audioInputChannel s') = cap (audioInputChannel s)"
    and "cap (sendDone s') = cap (sendDone s)"
    and "signal_ops FromReceiver (trace s') = signal_ops FromReceiver (trace s)"
    and "closer_ops (trace s') = closer_ops (trace s)"
    and "observations (trace s') = observations (trace s)"
    and "errors_published (trace s') = errors_published (trace s)"
    and "submitted (trace s') = submitted (trace s)"
    and "emitted (trace s') = emitted (trace s)"
    and "events_taken (trace s') = events_taken (trace s)"
    and "published (trace s') = published (trace s)"
    and "sends_on_closed (trace s') = sends_on_closed (trace s)"
  using assms
  by (auto simp: sender_step_def chan_defs log_def projection_defs
      split: sender_pc.splits list.splits option.splits if_splits)

lemma receiver_step_frame:
  assumes "receiver_step s = Some s'"
  shows "spc s' = spc s" and "cpc s' = cpc s" and "sendDone s' = sendDone s"
    and "audioInputChannel s' = audioInputChannel s"
    and "errOutputChannel s' = errOutputChannel s"
    and "events_closed s' = events_closed s"
    and "stream_err s' = stream_err s"
    and "closed (transcriptOutputChannel s') = closed (transcriptOutputChannel s)"
    and "cap (transcriptOutputChannel s') = cap (transcriptOutputChannel s)"
    and "cap (recvDone s') = cap (recvDone s)"
    and "signal_ops FromSender (trace s') = signal_ops FromSender (trace s)"
    and "stream_ops (trace s') = stream_ops (trace s)"
    and "stream_closes (trace s') = stream_closes (trace s)"
    and "send_failures (trace s') = send_failures (trace s)"
    and "closer_ops (trace s') = closer_ops (trace s)"
    and "observations (trace s') = observations (trace s)"
    and "errors_published (trace s') = errors_published (trace s)"
    and "submitted (trace s') = submitted (trace s)"
    and "taken (trace s') = taken (trace s)"
    and "emitted (trace s') = emitted (trace s)"
  using assms
  by (auto simp: receiver_step_def chan_defs log_def projection_defs
      split: receiver_pc.splits list.splits option.splits if_splits)

lemma closer_step_frame:
  assumes "closer_step sel s = Some s'"
  shows "spc s' = spc s" and "rpc s' = rpc s"
    and "audioInputChannel s' = audioInputChannel s"
    and "events s' = events s" and "events_closed s' = events_closed s"
    and "stream_err s' = stream_err s"
    and "buf (transcriptOutputChannel s') = buf (transcriptOutputChannel s)"
    and "cap (transcriptOutputChannel s') = cap (transcriptOutputChannel s)"
    and "cap (errOutputChannel s') = cap (errOutputChannel s)"
    and "cap (sendDone s') = cap (sendDone s)"
    and "closed (sendDone s') = closed (sendDone s)"
    and "buf (sendDone s') = buf (sendDone s) \<or> buf (sendDone s') = tl (buf (sendDone s))"
    and "cap (recvDone s') = cap (recvDone s)"
    and "closed (recvDone s') = closed (recvDone s)"
    and "buf (recvDone s') = buf (recvDone s) \<or> buf (recvDone s') = tl (buf (recvDone s))"
    and "signal_ops FromSender (trace s') = signal_ops FromSender (trace s)"
    and "signal_ops FromReceiver (trace s') = signal_ops FromReceiver (trace s)"
    and "stream_ops (trace s') = stream_ops (trace s)"
    and "stream_closes (trace s') = stream_closes (trace s)"
    and "send_failures (trace s') = send_failures (trace s)"
    and "submitted (trace s') = submitted (trace s)"
    and "taken (trace s') = taken (trace s)"
    and "emitted (trace s') = emitted (trace s)"
    and "events_taken (trace s') = events_taken (trace s)"
    and "published (trace s') = published (trace s)"
    and "sends_on_closed (trace s') = sends_on_closed (trace s)"
  using assms
  by (auto simp: closer_step_def chan_defs log_def projection_defs
      split: closer_pc.splits source.splits list.splits option.splits if_splits)

lemma env_step_frame:
  assumes "env_step a s = Some s'"
  shows "spc s' = spc s" and "rpc s' = rpc s" and "cpc s' = cpc s"
    and "sendDone s' = sendDone s" and "recvDone s' = recvDone s"
    and "crashed s' = crashed s"
    and "cap (audioInputChannel s') = cap (audioInputChannel s)"
    and "cap (transcriptOutputChannel s') = cap (transcriptOutputChannel s)"
    and "closed (transcriptOutputChannel s') = closed (transcriptOutputChannel s)"
    and "cap (errOutputChannel s') = cap (errOutputChannel s)"
    and "closed (errOutputChannel s') = closed (errOutputChannel s)"
    and "buf (errOutputChannel s') = buf (errOutputChannel s) \<or>
         buf (errOutputChannel s') = tl (buf (errOutputChannel s))"
    and "signal_ops FromSender (trace s') = signal_ops FromSender (trace s)"
    and "signal_ops FromReceiver (trace s') = signal_ops FromReceiver (trace s)"
    and "stream_ops (trace s') = stream_ops (trace s)"
    and "stream_closes (trace s') = stream_closes (trace s)"
    and "send_failures (trace s') = send_failures (trace s)"
    and "closer_ops (trace s') = closer_ops (trace s)"
    and "observations (trace s') = observations (trace s)"
    and "errors_published (trace s') = errors_published (trace s)"
    and "taken (trace s') = taken (trace s)"
    and "events_taken (trace s') = events_taken (trace s)"
    and "published (trace s') = published (trace s)"
    and "sends_on_closed (trace s') = sends_on_closed (trace s)"
  using assms
  by (auto simp: env_step_def chan_defs log_def projection_defs
      split: action.splits list.splits option.splits if_splits send_result.splits)

lemma first_error_cong:
  "observations (trace s') = observations (trace s) \<Longrightarrow>
     first_error (trace s') = first_error (trace s)"
  by (simp add: first_error_def)

lemma signal_ops_snoc [simp]:
  "signal_ops src (tr @ [x]) = signal_ops src tr @ (if is_signal src x then [x] else [])"
  by (simp add: signal_ops_def)

lemma closer_ops_snoc [simp]:
  "closer_ops (tr @ [x]) = closer_ops tr @ (if is_closer_op x then [x] else [])"
  by (simp add: closer_ops_def)

lemma observations_snoc [simp]: "observations (tr @ [x]) = observations tr @ observed_of x"
  by (simp add: observations_def)

lemma fire_cases:
  assumes "fire a s = Some s'"
  obtains (sender) r where "a = SenderStep r" and "sender_step r s = Some s'" and "\<not> crashed s"
  | (receiver) "a = ReceiverStep" and "receiver_step s = Some s'" and "\<not> crashed s"
  | (closer) sel where "a = CloserStep sel" and "closer_step sel s = Some s'" and "\<not> crashed s"
  | (env) "env_step a s = Some s'" and "\<not> crashed s"
  using assms by (cases a) (auto simp: fire_def split: if_splits)

lemma run_invariant:
  assumes "\<And>s a s'. P s \<Longrightarrow> fire a s = Some s' \<Longrightarrow> P s'"
    and "P s" and "run as s = Some s'"
  shows "P s'"
  using assms(2,3)
  by (induction as arbitrary: s) (auto split: option.splits intro: assms(1))

section \<open>The termination conduits\<close>

lemma send_failures_snoc [simp]:
  "send_failures (tr @ [x]) = send_failures tr @ (if is_send_failed x then [x] else [])"
  by (simp add: send_failures_def)

lemma sender_conduit_init: "sender_conduit init"
  by (simp add: sender_conduit_def init_def make_chan_def signal_ops_def send_failures_def)

lemma sender_conduit_sender:
  assumes "sender_conduit s" and "sender_step r s = Some s'"
  shows "sender_conduit s'"
proof (cases "spc s")
  case S_range
  with assms show ?thesis
    by (auto simp: sender_conduit_def sender_step_def chan_recv_def log_def
        split: list.splits if_splits)
next
  case (S_send ch)
  with assms show ?thesis
    by (auto simp: sender_conduit_def sender_step_def log_def wrap_send_def split: option.splits)
next
  case S_close
  with assms show ?thesis
    by (auto simp: sender_conduit_def sender_step_def log_def)
next
  case (S_signal e)
  with assms show ?thesis
    by (auto simp: sender_conduit_def sender_step_def chan_send_def log_def split: if_splits)
next
  case S_defer
  with assms show ?thesis
    by (auto simp: sender_conduit_def sender_step_def chan_close_def log_def split: if_splits)
next
  case S_panic
  with assms show ?thesis by (simp add: sender_conduit_def)
next
  case S_done
  with assms show ?thesis by (simp add: sender_step_def)
qed

lemma sender_conduit_closer:
  assumes "sender_conduit s" and "closer_step sel s = Some s'"
  shows "sender_conduit s'"
proof -
  note fr = closer_step_frame [OF assms(2)]
  show ?thesis
    using assms(1) fr(12)
    by (cases "spc s") (auto simp: sender_conduit_def fr(1) fr(10) fr(11) fr(16) fr(20))
qed

lemma sender_conduit_fire:
  assumes "sender_conduit s" and "fire a s = Some s'"
  shows "sender_conduit s'"
  using assms(2)
proof (cases rule: fire_cases)
  case (sender r)
  then show ?thesis using assms(1) by (simp add: sender_conduit_sender)
next
  case receiver
  from assms(1) receiver_step_frame [OF receiver(2)] show ?thesis
    by (cases "spc s") (simp_all add: sender_conduit_def)
next
  case (closer sel)
  then show ?thesis using assms(1) by (simp add: sender_conduit_closer)
next
  case env
  from assms(1) env_step_frame [OF env(1)] show ?thesis
    by (cases "spc s") (simp_all add: sender_conduit_def)
qed

lemma receiver_conduit_init: "receiver_conduit init"
  by (simp add: receiver_conduit_def init_def make_chan_def signal_ops_def)

lemma receiver_conduit_receiver:
  assumes "receiver_conduit s" and "receiver_step s = Some s'"
  shows "receiver_conduit s'"
proof (cases "rpc s")
  case R_range
  with assms show ?thesis
    by (auto simp: receiver_conduit_def receiver_step_def log_def split: list.splits if_splits)
next
  case (R_publish ps)
  with assms show ?thesis
    by (cases ps)
      (auto simp: receiver_conduit_def receiver_step_def chan_send_def log_def split: if_splits)
next
  case R_err
  with assms show ?thesis
    by (auto simp: receiver_conduit_def receiver_step_def wrap_recv_def split: option.splits)
next
  case (R_signal e)
  with assms show ?thesis
    by (auto simp: receiver_conduit_def receiver_step_def chan_send_def log_def split: if_splits)
next
  case R_defer
  with assms show ?thesis
    by (auto simp: receiver_conduit_def receiver_step_def chan_close_def log_def split: if_splits)
next
  case R_panic
  with assms show ?thesis
    by (auto simp: receiver_conduit_def receiver_step_def chan_close_def log_def split: if_splits)
next
  case R_done
  with assms show ?thesis by (simp add: receiver_step_def)
qed

lemma receiver_conduit_closer:
  assumes "receiver_conduit s" and "closer_step sel s = Some s'"
  shows "receiver_conduit s'"
proof -
  note fr = closer_step_frame [OF assms(2)]
  show ?thesis
    using assms(1) fr(15)
    by (cases "rpc s") (auto simp: receiver_conduit_def fr(2) fr(13) fr(14) fr(17))
qed

lemma receiver_conduit_fire:
  assumes "receiver_conduit s" and "fire a s = Some s'"
  shows "receiver_conduit s'"
  using assms(2)
proof (cases rule: fire_cases)
  case (sender r)
  from assms(1) sender_step_frame [OF sender(2)] show ?thesis
    by (cases "rpc s") (simp_all add: receiver_conduit_def)
next
  case receiver
  then show ?thesis using assms(1) by (simp add: receiver_conduit_receiver)
next
  case (closer sel)
  then show ?thesis using assms(1) by (simp add: receiver_conduit_closer)
next
  case env
  from assms(1) env_step_frame [OF env(1)] show ?thesis
    by (cases "rpc s") (simp_all add: receiver_conduit_def)
qed

section \<open>The closer's sequence\<close>

lemma closer_inv_init: "closer_inv init"
  by (simp add: closer_inv_def init_def make_chan_def observations_def closer_ops_def)

lemma closer_inv_closer:
  assumes "closer_inv s" and "closer_step sel s = Some s'"
  shows "closer_inv s'"
proof (cases "cpc s")
  case C_select
  with assms show ?thesis
    by (cases sel)
      (auto simp: closer_inv_def closer_step_def chan_recv_def log_def
        split: list.splits if_splits)
next
  case (C_publish e)
  with assms show ?thesis
    by (cases e)
      (auto simp: closer_inv_def closer_step_def chan_send_def log_def first_error_def
        publish_ops_def split: if_splits)
next
  case C_close_transcript
  with assms show ?thesis
    by (auto simp: closer_inv_def closer_step_def chan_close_def log_def first_error_def
        split: if_splits)
next
  case C_close_err
  with assms show ?thesis
    by (auto simp: closer_inv_def closer_step_def chan_close_def log_def first_error_def
        split: if_splits)
next
  case C_done
  with assms show ?thesis by (simp add: closer_step_def)
qed

lemma closer_inv_env:
  assumes "closer_inv s" and "env_step a s = Some s'"
  shows "closer_inv s'"
proof -
  note fr = env_step_frame [OF assms(2)]
  note eqs = fr(3) fr(9) fr(10) fr(11) fr(18) fr(19) first_error_cong [OF fr(19)]
  show ?thesis
    using assms(1) fr(12)
    by (cases "cpc s") (auto simp: closer_inv_def eqs)
qed

lemma closer_inv_fire:
  assumes "closer_inv s" and "fire a s = Some s'"
  shows "closer_inv s'"
  using assms(2)
proof (cases rule: fire_cases)
  case (sender r)
  note fr = sender_step_frame [OF sender(2)]
  from assms(1) fr first_error_cong [OF fr(14)] show ?thesis
    by (cases "cpc s") (simp_all add: closer_inv_def)
next
  case receiver
  note fr = receiver_step_frame [OF receiver(2)]
  from assms(1) fr first_error_cong [OF fr(16)] show ?thesis
    by (cases "cpc s") (simp_all add: closer_inv_def)
next
  case (closer sel)
  then show ?thesis using assms(1) by (simp add: closer_inv_closer)
next
  case env
  then show ?thesis using assms(1) by (simp add: closer_inv_env)
qed

section \<open>The sender and the remote stream\<close>

lemma sends_snoc [simp]: "sends (cs @ [c]) = sends cs @ [StreamSend (PCM c)]"
  by (simp add: sends_def)

lemma sends_Nil [simp]: "sends [] = []"
  by (simp add: sends_def)

lemma sends_butlast_last:
  "cs \<noteq> [] \<Longrightarrow> sends (butlast cs) @ [StreamSend (PCM (last cs))] = sends cs"
  by (metis append_butlast_last_id sends_snoc)

lemma nonfinal_snoc [simp]: "nonfinal (cs @ [c]) \<longleftrightarrow> nonfinal cs \<and> \<not> Final c"
  by (auto simp: nonfinal_def)

lemma nonfinal_Nil [simp]: "nonfinal []"
  by (simp add: nonfinal_def)

lemma taken_snoc [simp]: "taken (tr @ [x]) = taken tr @ taken_of x"
  by (simp add: taken_def)

lemma submitted_snoc [simp]: "submitted (tr @ [x]) = submitted tr @ submitted_of x"
  by (simp add: submitted_def)

lemma stream_ops_snoc [simp]:
  "stream_ops (tr @ [x]) = stream_ops tr @ (if is_stream_op x then [x] else [])"
  by (simp add: stream_ops_def)

lemma queue_inv_init: "queue_inv init"
  by (simp add: queue_inv_def init_def make_chan_def submitted_def taken_def)

lemma queue_inv_fire:
  assumes "queue_inv s" and "fire a s = Some s'"
  shows "queue_inv s'"
  using assms(2)
proof (cases rule: fire_cases)
  case (sender r)
  with assms(1) show ?thesis
    by (cases "spc s")
      (auto simp: queue_inv_def sender_step_def chan_defs log_def
        split: list.splits option.splits if_splits)
next
  case receiver
  from assms(1) receiver_step_frame [OF receiver(2)] show ?thesis
    by (simp add: queue_inv_def)
next
  case (closer sel)
  from assms(1) closer_step_frame [OF closer(2)] show ?thesis
    by (simp add: queue_inv_def)
next
  case env
  with assms(1) show ?thesis
    by (cases a)
      (auto simp: queue_inv_def env_step_def chan_defs log_def
        split: list.splits option.splits if_splits)
qed

lemma env_step_input:
  assumes "env_step a s = Some s'" and "closed (audioInputChannel s)"
  shows "audioInputChannel s' = audioInputChannel s"
  using assms
  by (cases a) (auto simp: env_step_def chan_defs log_def split: list.splits if_splits)

lemmas left_defs =
  sender_left_loop_def left_on_final_def left_on_closed_input_def left_on_failure_def

lemma sender_inv_init: "sender_inv init"
  by (simp add: sender_inv_def init_def taken_def stream_ops_def)

lemma sender_inv_sender:
  assumes "sender_inv s" and "sender_step r s = Some s'"
  shows "sender_inv s'"
proof (cases "spc s")
  case S_range
  with assms show ?thesis
    by (auto simp: sender_inv_def sender_step_def chan_recv_def log_def left_defs
        split: list.splits if_splits)
next
  case (S_send ch)
  with assms show ?thesis
    by (cases r)
      (auto simp: sender_inv_def sender_step_def log_def left_defs sends_butlast_last)
next
  case S_close
  with assms show ?thesis
    by (auto simp: sender_inv_def sender_step_def log_def left_defs)
next
  case (S_signal e)
  with assms show ?thesis
    by (auto simp: sender_inv_def sender_step_def chan_send_def log_def left_defs
        split: if_splits)
next
  case S_defer
  with assms show ?thesis
    by (auto simp: sender_inv_def sender_step_def chan_close_def log_def left_defs
        split: if_splits)
next
  case S_panic
  with assms show ?thesis
    by (auto simp: sender_inv_def sender_step_def chan_close_def log_def left_defs
        split: if_splits)
next
  case S_done
  with assms show ?thesis by (simp add: sender_step_def)
qed

lemma sender_inv_env:
  assumes "sender_inv s" and "env_step a s = Some s'"
  shows "sender_inv s'"
proof -
  note fr = env_step_frame [OF assms(2)]
  have input: "closed (audioInputChannel s) \<Longrightarrow> audioInputChannel s' = audioInputChannel s"
    by (rule env_step_input [OF assms(2)])
  show ?thesis
    using assms(1) input
    by (cases "spc s") (auto simp: sender_inv_def left_defs fr(1) fr(15) fr(21))
qed

lemma sender_inv_fire:
  assumes "sender_inv s" and "fire a s = Some s'"
  shows "sender_inv s'"
  using assms(2)
proof (cases rule: fire_cases)
  case (sender r)
  then show ?thesis using assms(1) by (simp add: sender_inv_sender)
next
  case receiver
  note fr = receiver_step_frame [OF receiver(2)]
  from assms(1) show ?thesis
    by (cases "spc s") (simp_all add: sender_inv_def left_defs fr(1) fr(4) fr(12) fr(19))
next
  case (closer sel)
  note fr = closer_step_frame [OF closer(2)]
  from assms(1) show ?thesis
    by (cases "spc s") (simp_all add: sender_inv_def left_defs fr(1) fr(3) fr(18) fr(22))
next
  case env
  then show ?thesis using assms(1) by (simp add: sender_inv_env)
qed

section \<open>The receiver and the transcript queue\<close>

lemma emitted_snoc [simp]: "emitted (tr @ [x]) = emitted tr @ emitted_of x"
  by (simp add: emitted_def)

lemma events_taken_snoc [simp]: "events_taken (tr @ [x]) = events_taken tr @ event_taken_of x"
  by (simp add: events_taken_def)

lemma published_snoc [simp]: "published (tr @ [x]) = published tr @ published_of x"
  by (simp add: published_def)

lemma sends_on_closed_snoc [simp]:
  "sends_on_closed (tr @ [x]) = sends_on_closed tr @ (if is_send_on_closed x then [x] else [])"
  by (simp add: sends_on_closed_def)

lemma receiver_inv_init: "receiver_inv init"
  by (simp add: receiver_inv_def init_def emitted_def events_taken_def published_def
      sends_on_closed_def pending_def in_loop_def)

lemma receiver_inv_receiver:
  assumes "receiver_inv s" and "receiver_step s = Some s'"
  shows "receiver_inv s'"
proof (cases "rpc s")
  case R_range
  with assms show ?thesis
    by (auto simp: receiver_inv_def receiver_step_def log_def pending_def in_loop_def
        split: list.splits if_splits)
next
  case (R_publish ps)
  show ?thesis
  proof (cases ps)
    case Nil
    with assms R_publish show ?thesis
      by (auto simp: receiver_inv_def receiver_step_def pending_def in_loop_def)
  next
    case (Cons p rest)
    from assms(1) R_publish Cons
    have all: "published (trace s) @ p # rest = concat (map pieces_of (events_taken (trace s)))"
      and quiet: "sends_on_closed (trace s) = []"
      by (auto simp: receiver_inv_def pending_def in_loop_def)
    have "prefix (published (trace s) @ [p]) (published (trace s) @ p # rest)"
      by simp
    with all have "prefix (published (trace s) @ [p])
        (concat (map pieces_of (events_taken (trace s))))"
      by simp
    with assms R_publish Cons all quiet show ?thesis
      by (auto simp: receiver_inv_def receiver_step_def chan_send_def log_def pending_def
          in_loop_def split: if_splits)
  qed
next
  case R_err
  with assms show ?thesis
    by (auto simp: receiver_inv_def receiver_step_def pending_def in_loop_def
        split: option.splits)
next
  case (R_signal e)
  with assms show ?thesis
    by (auto simp: receiver_inv_def receiver_step_def chan_send_def log_def pending_def
        in_loop_def split: if_splits)
next
  case R_defer
  with assms show ?thesis
    by (auto simp: receiver_inv_def receiver_step_def chan_close_def log_def pending_def
        in_loop_def split: if_splits)
next
  case R_panic
  with assms show ?thesis
    by (auto simp: receiver_inv_def receiver_step_def chan_close_def log_def pending_def
        in_loop_def split: if_splits)
next
  case R_done
  with assms show ?thesis by (simp add: receiver_step_def)
qed

lemma receiver_inv_env:
  assumes "receiver_inv s" and "env_step a s = Some s'"
  shows "receiver_inv s'"
  using assms
  by (cases a)
    (auto simp: receiver_inv_def env_step_def chan_defs log_def
      split: list.splits if_splits)

lemma receiver_inv_fire:
  assumes "receiver_inv s" and "fire a s = Some s'"
  shows "receiver_inv s'"
  using assms(2)
proof (cases rule: fire_cases)
  case (sender r)
  note fr = sender_step_frame [OF sender(2)]
  from assms(1) show ?thesis
    by (simp add: receiver_inv_def fr(1) fr(6) fr(7) fr(17) fr(18) fr(19) fr(20))
next
  case receiver
  then show ?thesis using assms(1) by (simp add: receiver_inv_receiver)
next
  case (closer sel)
  note fr = closer_step_frame [OF closer(2)]
  from assms(1) show ?thesis
    by (simp add: receiver_inv_def fr(2) fr(4) fr(5) fr(23) fr(24) fr(25) fr(26))
next
  case env
  then show ?thesis using assms(1) by (simp add: receiver_inv_env)
qed

section \<open>How the process can die\<close>

lemma crash_inv_init: "crash_inv init"
  by (simp add: crash_inv_def init_def sends_on_closed_def observations_def)

lemma signal_ops_sender_grows:
  assumes "sender_step r s = Some s'" and "signal_ops FromSender (trace s) \<noteq> []"
  shows "signal_ops FromSender (trace s') \<noteq> []"
  using assms
  by (cases "spc s")
    (auto simp: sender_step_def chan_defs log_def
      split: list.splits option.splits if_splits)

lemma sender_step_alive:
  assumes "sender_conduit s" and "sender_step r s = Some s'"
  shows "crashed s' = crashed s"
  using assms
  by (cases "spc s")
    (auto simp: sender_conduit_def sender_step_def chan_defs log_def
      split: list.splits option.splits if_splits)

lemma closer_step_alive:
  assumes "closer_inv s" and "closer_step sel s = Some s'"
  shows "crashed s' = crashed s"
  using assms
  by (cases "cpc s"; cases sel)
    (auto simp: closer_inv_def closer_step_def chan_defs log_def
      split: list.splits option.splits if_splits)

lemma crash_inv_sender:
  assumes "crash_inv s" and "sender_conduit s" and "sender_step r s = Some s'"
  shows "crash_inv s'"
proof -
  note fr = sender_step_frame [OF assms(3)]
  note grows = signal_ops_sender_grows [OF assms(3)]
  note alive = sender_step_alive [OF assms(2,3)]
  from assms(1) grows show ?thesis
    by (auto simp: crash_inv_def fr(1) fr(14) fr(20) alive)
qed

lemma crash_inv_receiver:
  assumes "crash_inv s" and "receiver_conduit s" and "closer_inv s"
    and "receiver_step s = Some s'"
  shows "crash_inv s'"
proof (cases "rpc s")
  case R_range
  with assms(1,4) show ?thesis
    by (auto simp: crash_inv_def receiver_step_def log_def split: list.splits if_splits)
next
  case (R_publish ps)
  show ?thesis
  proof (cases ps)
    case Nil
    with assms(1,4) R_publish show ?thesis
      by (auto simp: crash_inv_def receiver_step_def)
  next
    case (Cons p rest)
    show ?thesis
    proof (cases "closed (transcriptOutputChannel s)")
      case False
      with assms(1,4) R_publish Cons show ?thesis
        by (auto simp: crash_inv_def receiver_step_def chan_send_def log_def split: if_splits)
    next
      case True
      with assms(3) have "length (observations (trace s)) = 1"
        by (cases "cpc s") (auto simp: closer_inv_def)
      then obtain src e where one: "observations (trace s) = [(src, e)]"
        by (cases "observations (trace s)") auto
      with assms(1) R_publish have "src = FromSender"
        by (cases src) (auto simp: crash_inv_def)
      with assms(1,4) R_publish Cons True one show ?thesis
        by (auto simp: crash_inv_def receiver_step_def chan_send_def log_def)
    qed
  qed
next
  case R_err
  with assms(1,4) show ?thesis
    by (auto simp: crash_inv_def receiver_step_def split: option.splits)
next
  case (R_signal e)
  with assms(1,2,4) show ?thesis
    by (auto simp: crash_inv_def receiver_conduit_def receiver_step_def chan_send_def log_def
        split: if_splits)
next
  case R_defer
  with assms(1,2,4) show ?thesis
    by (auto simp: crash_inv_def receiver_conduit_def receiver_step_def chan_close_def log_def
        split: if_splits)
next
  case R_panic
  with assms(1,2,4) show ?thesis
    by (auto simp: crash_inv_def receiver_conduit_def receiver_step_def chan_close_def log_def
        split: if_splits)
next
  case R_done
  with assms(4) show ?thesis by (simp add: receiver_step_def)
qed

lemma crash_inv_closer:
  assumes "crash_inv s" and "sender_conduit s" and "receiver_conduit s" and "closer_inv s"
    and "closer_step sel s = Some s'"
  shows "crash_inv s'"
proof (cases "cpc s")
  case C_select
  from assms(4) C_select have none: "observations (trace s) = []"
    by (simp add: closer_inv_def)
  with assms(1) have quiet: "sends_on_closed (trace s) = []" and alive: "\<not> crashed s"
    and not_panic: "rpc s \<noteq> R_panic"
    by (auto simp: crash_inv_def)
  show ?thesis
  proof (cases sel)
    case FromSender
    from assms(5) C_select FromSender
    have ready: "buf (sendDone s) \<noteq> [] \<or> closed (sendDone s)"
      by (auto simp: closer_step_def chan_recv_def split: list.splits if_splits)
    with assms(2) have "signal_ops FromSender (trace s) \<noteq> []"
      by (cases "spc s") (auto simp: sender_conduit_def)
    with assms(5) C_select FromSender none quiet alive not_panic show ?thesis
      by (auto simp: crash_inv_def closer_step_def chan_recv_def log_def
          split: list.splits if_splits)
  next
    case FromReceiver
    from assms(5) C_select FromReceiver
    have ready: "buf (recvDone s) \<noteq> [] \<or> closed (recvDone s)"
      by (auto simp: closer_step_def chan_recv_def split: list.splits if_splits)
    with assms(3) have "rpc s = R_defer \<or> rpc s = R_done"
      by (cases "rpc s") (auto simp: receiver_conduit_def)
    with assms(5) C_select FromReceiver none quiet alive not_panic show ?thesis
      by (auto simp: crash_inv_def closer_step_def chan_recv_def log_def
          split: list.splits if_splits)
  qed
next
  case (C_publish e)
  with assms(1,4,5) show ?thesis
    by (cases e)
      (auto simp: crash_inv_def closer_inv_def closer_step_def chan_send_def log_def
        split: if_splits)
next
  case C_close_transcript
  with assms(1,4,5) show ?thesis
    by (auto simp: crash_inv_def closer_inv_def closer_step_def chan_close_def log_def
        split: if_splits)
next
  case C_close_err
  with assms(1,4,5) show ?thesis
    by (auto simp: crash_inv_def closer_inv_def closer_step_def chan_close_def log_def
        split: if_splits)
next
  case C_done
  with assms(5) show ?thesis by (simp add: closer_step_def)
qed

text \<open>All invariants together hold in every state an execution reaches.\<close>

lemma invariants_init: "invariants init"
  by (simp add: invariants_def sender_conduit_init receiver_conduit_init closer_inv_init
      queue_inv_init sender_inv_init receiver_inv_init crash_inv_init)

lemma invariants_fire:
  assumes "invariants s" and "fire a s = Some s'"
  shows "invariants s'"
proof -
  from assms(1) have inv: "sender_conduit s" "receiver_conduit s" "closer_inv s" "queue_inv s"
    "sender_inv s" "receiver_inv s" "crash_inv s"
    by (simp_all add: invariants_def)
  have "crash_inv s'"
    using assms(2)
  proof (cases rule: fire_cases)
    case (sender r)
    then show ?thesis using inv by (simp add: crash_inv_sender)
  next
    case receiver
    then show ?thesis using inv by (simp add: crash_inv_receiver)
  next
    case (closer sel)
    then show ?thesis using inv by (simp add: crash_inv_closer)
  next
    case env
    note fr = env_step_frame [OF env(1)]
    from inv(7) show ?thesis
      by (simp add: crash_inv_def fr(1) fr(2) fr(6) fr(13) fr(19) fr(24))
  qed
  with inv assms(2) show ?thesis
    by (simp add: invariants_def sender_conduit_fire receiver_conduit_fire closer_inv_fire
        queue_inv_fire sender_inv_fire receiver_inv_fire)
qed

lemma reachable_invariants:
  assumes "run as init = Some s"
  shows "invariants s"
  using invariants_fire invariants_init assms by (rule run_invariant)

section \<open>The sender can always be run to its end\<close>

lemma run_append:
  "run (as @ bs) s = (case run as s of None \<Rightarrow> None | Some s' \<Rightarrow> run bs s')"
  by (induction as arbitrary: s) (simp_all split: option.splits)

lemma forward_one:
  assumes "idle s" and "\<not> Final c"
  shows "\<exists>s'. run [Submit c, SenderStep None, SenderStep None] s = Some s' \<and> idle s' \<and>
           trace s' = trace s @ [Submitted c, Taken c, StreamSend (PCM c)]"
  using assms
  by (simp add: idle_def fire_def env_step_def sender_step_def chan_send_def chan_recv_def
      make_chan_def log_def)

lemma forward_all:
  assumes "idle s" and "nonfinal cs"
  shows "\<exists>s'. run (forward_schedule cs) s = Some s' \<and> idle s' \<and>
           trace s' = trace s @ concat (map (\<lambda>c. [Submitted c, Taken c, StreamSend (PCM c)]) cs)"
  using assms
proof (induction cs arbitrary: s)
  case Nil
  then show ?case by (simp add: forward_schedule_def)
next
  case (Cons c cs)
  from Cons.prems have "\<not> Final c" and rest: "nonfinal cs"
    by (simp_all add: nonfinal_def)
  with Cons.prems(1) obtain s1
    where one: "run [Submit c, SenderStep None, SenderStep None] s = Some s1"
      and idle1: "idle s1"
      and tr1: "trace s1 = trace s @ [Submitted c, Taken c, StreamSend (PCM c)]"
    using forward_one by blast
  from Cons.IH [OF idle1 rest] obtain s2
    where more: "run (forward_schedule cs) s1 = Some s2" and idle2: "idle s2"
      and tr2: "trace s2 =
        trace s1 @ concat (map (\<lambda>c. [Submitted c, Taken c, StreamSend (PCM c)]) cs)"
    by blast
  have "forward_schedule (c # cs) = [Submit c, SenderStep None, SenderStep None] @ forward_schedule cs"
    by (simp add: forward_schedule_def)
  with one more have "run (forward_schedule (c # cs)) s = Some s2"
    by (simp only: run_append) simp
  with idle2 tr1 tr2 show ?case by simp
qed

lemma finish_one:
  assumes "idle s" and "Final fin"
  shows "\<exists>s'. run [Submit fin, SenderStep None, SenderStep None, SenderStep None] s = Some s' \<and>
           spc s' = S_done \<and> \<not> crashed s' \<and>
           trace s' = trace s @ [Submitted fin, Taken fin, StreamClose, SignalClosed FromSender]"
  using assms
  by (simp add: idle_def fire_def env_step_def sender_step_def chan_send_def chan_recv_def
      chan_close_def make_chan_def log_def)

lemma forwarded_history:
  "submitted (concat (map (\<lambda>c. [Submitted c, Taken c, StreamSend (PCM c)]) cs)) = cs"
  "stream_ops (concat (map (\<lambda>c. [Submitted c, Taken c, StreamSend (PCM c)]) cs)) = sends cs"
  "send_failures (concat (map (\<lambda>c. [Submitted c, Taken c, StreamSend (PCM c)]) cs)) = []"
  by (induction cs) (simp_all add: submitted_def stream_ops_def send_failures_def sends_def)

lemma full_schedule_runs:
  assumes "nonfinal cs" and "Final fin"
  shows "\<exists>s. run (full_schedule cs fin) init = Some s \<and> spc s = S_done \<and> \<not> crashed s \<and>
           submitted (trace s) = cs @ [fin] \<and> send_failures (trace s) = [] \<and>
           stream_ops (trace s) = sends cs @ [StreamClose]"
proof -
  have "idle init" by (simp add: idle_def init_def)
  from forward_all [OF this assms(1)] obtain s1
    where r1: "run (forward_schedule cs) init = Some s1" and idle1: "idle s1"
      and tr1: "trace s1 = concat (map (\<lambda>c. [Submitted c, Taken c, StreamSend (PCM c)]) cs)"
    by (auto simp: init_def)
  from finish_one [OF idle1 assms(2)] obtain s2
    where r2: "run [Submit fin, SenderStep None, SenderStep None, SenderStep None] s1 = Some s2"
      and fin2: "spc s2 = S_done" "\<not> crashed s2"
      and tr2: "trace s2 =
        trace s1 @ [Submitted fin, Taken fin, StreamClose, SignalClosed FromSender]"
    by blast
  from r1 r2 have "run (full_schedule cs fin) init = Some s2"
    by (simp only: full_schedule_def run_append) simp
  moreover from tr1 tr2 have "submitted (trace s2) = cs @ [fin]"
    and "send_failures (trace s2) = []"
    and "stream_ops (trace s2) = sends cs @ [StreamClose]"
    by (simp_all add: submitted_def stream_ops_def send_failures_def
        forwarded_history [unfolded submitted_def stream_ops_def send_failures_def])
  ultimately show ?thesis using fin2 by blast
qed

section \<open>The concrete executions, evaluated\<close>

lemmas step_defs =
  fire_def sender_step_def receiver_step_def closer_step_def env_step_def init_def
  chan_send_def chan_recv_def chan_close_def make_chan_def log_def received_error_def
  wrap_send_def wrap_recv_def audio_chunk_def final_chunk_def hello_event_def

lemma graceful_run_end: "run graceful_run init = Some graceful_end"
  by (simp add: graceful_run_def graceful_end_def step_defs)

lemma failed_send_run_end: "run failed_send_run init = Some failed_send_end"
  by (simp add: failed_send_run_def failed_send_end_def step_defs)

lemma receiver_first_run_end: "run receiver_first_run init = Some receiver_first_end"
  by (simp add: receiver_first_run_def receiver_first_end_def step_defs)

lemma sender_first_run_end: "run sender_first_run init = Some sender_first_end"
  by (simp add: sender_first_run_def sender_first_end_def step_defs)

lemma transcript_run_end: "run transcript_run init = Some transcript_end"
  by (simp add: transcript_run_def transcript_end_def step_defs)

section \<open>The remote session handle is closed at most once\<close>

lemma stream_closes_ops:
  "stream_closes tr = length (filter (\<lambda>x. x = StreamClose) (stream_ops tr))"
  by (induction tr) (auto simp: stream_closes_def stream_ops_def)

lemma no_close_in_sends: "filter (\<lambda>x. x = StreamClose) (sends cs) = []"
  by (induction cs) (simp_all add: sends_def)

lemma is_send_failed_stream_op: "is_send_failed x \<Longrightarrow> is_stream_op x"
  by (cases x) simp_all

lemma send_failures_ops: "send_failures tr = filter is_send_failed (stream_ops tr)"
  by (induction tr) (auto simp: send_failures_def stream_ops_def is_send_failed_stream_op)

lemma no_failure_in_sends: "filter is_send_failed (sends cs) = []"
  by (induction cs) (simp_all add: sends_def)

lemmas count_simps =
  stream_closes_ops no_close_in_sends send_failures_ops no_failure_in_sends

text \<open>
  Claim C1, as the code has it. Close of the remote session handle is called at most once
  in every execution. It is not called while the sender is in its loop, whatever the
  receiver and the closer have done by then: the closer never calls it. It has been called
  exactly once when the sender has left its loop on a final chunk or on the closed input
  channel.
\<close>

theorem C1_stream_closed_at_most_once:
  assumes "run as init = Some s"
  shows "stream_closes (trace s) \<le> 1 \<and>
         (before_close (spc s) \<longrightarrow> stream_closes (trace s) = 0) \<and>
         ((spc s = S_defer \<or> spc s = S_done) \<and> send_failures (trace s) = [] \<longrightarrow>
            stream_closes (trace s) = 1)"
proof -
  from assms have "invariants s" by (rule reachable_invariants)
  then have "sender_inv s" and "sender_conduit s" by (simp_all add: invariants_def)
  then show ?thesis
    by (cases "spc s")
      (auto simp: sender_inv_def sender_conduit_def left_defs before_close_def count_simps)
qed

theorem C1_stream_closed_at_most_once_witness:
  "run graceful_run init = Some graceful_end \<and> stream_closes (trace graceful_end) = 1 \<and>
   run receiver_first_run init = Some receiver_first_end \<and>
   stream_closes (trace receiver_first_end) = 0"
proof -
  have "(spc graceful_end = S_defer \<or> spc graceful_end = S_done) \<and>
        send_failures (trace graceful_end) = []"
    by (simp add: graceful_end_def send_failures_def)
  moreover have "before_close (spc receiver_first_end)"
    by (simp add: receiver_first_end_def before_close_def)
  ultimately show ?thesis
    using C1_stream_closed_at_most_once [OF graceful_run_end]
      C1_stream_closed_at_most_once [OF receiver_first_run_end]
      graceful_run_end receiver_first_run_end
    by simp
qed

text \<open>
  Claim C1, as it is stated, fails. When a Send fails, the sender sends its error on
  sendDone and returns without a call of Close (lines 162 to 166), and the closer closes
  only the two output channels: all tasks that could call Close are done, and it was
  called zero times. When the receiver ends first, the closer runs to its end and Close
  has not been called either.
\<close>

theorem C1_counterexample:
  "run failed_send_run init = Some failed_send_end \<and>
   spc failed_send_end = S_done \<and> cpc failed_send_end = C_done \<and>
   stream_closes (trace failed_send_end) = 0 \<and>
   run receiver_first_run init = Some receiver_first_end \<and>
   rpc receiver_first_end = R_done \<and> cpc receiver_first_end = C_done \<and>
   stream_closes (trace receiver_first_end) = 0"
  using failed_send_run_end receiver_first_run_end
  by (simp add: failed_send_end_def receiver_first_end_def stream_closes_def)

section \<open>The receiver can send on the closed transcript channel\<close>

text \<open>
  Claim C2 fails on the code. In \<open>sender_first_run\<close> the sender finishes first, the
  closer closes transcriptOutputChannel (line 229), and the receiver then executes the
  send of line 191 for an event the remote session still delivered: the send panics, and
  with the receiver's next step (its deferred call) the process dies.
\<close>

theorem C2_receiver_sends_after_close:
  "run sender_first_run init = Some sender_first_end \<and>
   closed (transcriptOutputChannel sender_first_end) \<and>
   rpc sender_first_end = R_panic \<and>
   filter (\<lambda>x. x = TranscriptClosed \<or> is_send_on_closed x) (trace sender_first_end) =
     [TranscriptClosed, TranscriptSendOnClosed \<lparr>Text = ''hel'', Partial = True\<rparr>] \<and>
   map_option crashed (fire ReceiverStep sender_first_end) = Some True"
  using sender_first_run_end
  by (simp add: sender_first_end_def fire_def receiver_step_def chan_close_def log_def)

section \<open>The sender forwards in order and closes once\<close>

lemma takeWhile_nonfinal:
  assumes "nonfinal pre" and "Final f"
  shows "takeWhile (\<lambda>c. \<not> Final c) (pre @ f # rest) = pre"
  using assms by (induction pre) (simp_all add: nonfinal_def)

lemma final_position:
  assumes "pre @ f # rest = cs @ [fin]" and "nonfinal pre" and "Final f"
    and "nonfinal cs" and "Final fin"
  shows "pre = cs"
proof -
  have "takeWhile (\<lambda>c. \<not> Final c) (pre @ f # rest) = pre"
    using assms(2,3) by (rule takeWhile_nonfinal)
  moreover have "takeWhile (\<lambda>c. \<not> Final c) (cs @ fin # []) = cs"
    using assms(4,5) by (rule takeWhile_nonfinal)
  ultimately show ?thesis using assms(1) by simp
qed

lemma nonfinal_no_final: "nonfinal (cs @ [fin]) \<Longrightarrow> Final fin \<Longrightarrow> False"
  by simp

text \<open>
  Claim C3. Let the caller have submitted the chunks \<open>cs\<close>, none of them final, and
  then one final chunk. Close is called at most once, also when a Send fails. When the
  sender has returned and no Send failed, the remote session has received exactly the
  payloads of \<open>cs\<close>, in the order of submission, and then one call of Close. And the
  sender does return: until then, and unless a Send fails, the process is alive and the
  sender's next step can be taken; \<open>full_schedule cs fin\<close> is an execution in which it
  returns.
\<close>

theorem C3_forwarder_delivers_in_order:
  assumes "run as init = Some s"
    and "submitted (trace s) = cs @ [fin]" and "nonfinal cs" and "Final fin"
  shows "stream_closes (trace s) \<le> 1 \<and>
         (spc s = S_done \<and> send_failures (trace s) = [] \<longrightarrow>
            stream_ops (trace s) = sends cs @ [StreamClose]) \<and>
         (spc s \<noteq> S_done \<and> send_failures (trace s) = [] \<longrightarrow>
            \<not> crashed s \<and> sender_step r s \<noteq> None) \<and>
         (\<exists>s'. run (full_schedule cs fin) init = Some s' \<and> spc s' = S_done \<and>
            submitted (trace s') = cs @ [fin] \<and> send_failures (trace s') = [])"
proof -
  from assms(1) have inv: "invariants s" by (rule reachable_invariants)
  then have si: "sender_inv s" and sc: "sender_conduit s" and q: "queue_inv s"
    and cr: "crash_inv s"
    by (simp_all add: invariants_def)
  from q assms(2) have queue: "taken (trace s) @ buf (audioInputChannel s) = cs @ [fin]"
    by (simp add: queue_inv_def)
  have once: "stream_closes (trace s) \<le> 1"
    using si sc
    by (cases "spc s")
      (auto simp: sender_inv_def sender_conduit_def left_defs count_simps)
  have delivered: "stream_ops (trace s) = sends cs @ [StreamClose]"
    if returned: "spc s = S_done" and ok: "send_failures (trace s) = []"
  proof -
    from si returned have "sender_left_loop s" by (simp add: sender_inv_def)
    then consider
      (final) "left_on_final s"
        "stream_ops (trace s) = sends (butlast (taken (trace s))) @ [StreamClose]"
      | (closed_input) "left_on_closed_input s"
      | (failure) "left_on_failure s"
      by (auto simp: sender_left_loop_def)
    then show ?thesis
    proof cases
      case final
      from final(1) have tk: "taken (trace s) = butlast (taken (trace s)) @ [last (taken (trace s))]"
        and fl: "Final (last (taken (trace s)))" and nf: "nonfinal (butlast (taken (trace s)))"
        by (simp_all add: left_on_final_def)
      from queue tk have "butlast (taken (trace s)) @
          last (taken (trace s)) # buf (audioInputChannel s) = cs @ [fin]"
        by (metis append_Cons append_Nil append_assoc)
      then have "butlast (taken (trace s)) = cs"
        using nf fl assms(3,4) by (rule final_position)
      with final(2) show ?thesis by simp
    next
      case closed_input
      with queue have "nonfinal (cs @ [fin])" by (simp add: left_on_closed_input_def)
      with assms(4) show ?thesis by simp
    next
      case failure
      then have "send_failures (trace s) \<noteq> []"
        by (simp add: left_on_failure_def count_simps)
      with ok show ?thesis by simp
    qed
  qed
  have moves: "\<not> crashed s \<and> sender_step r s \<noteq> None"
    if busy: "spc s \<noteq> S_done" and ok: "send_failures (trace s) = []"
  proof -
    have alive: "\<not> crashed s"
    proof
      assume "crashed s"
      with cr have "signal_ops FromSender (trace s) \<noteq> []"
        by (auto simp: crash_inv_def)
      with sc busy ok show False
        by (cases "spc s") (auto simp: sender_conduit_def)
    qed
    have "sender_step r s \<noteq> None"
    proof (cases "spc s")
      case S_range
      with si have "nonfinal (taken (trace s))" by (simp add: sender_inv_def)
      with queue assms(4) have "buf (audioInputChannel s) \<noteq> []"
        by (auto dest: nonfinal_no_final)
      with S_range show ?thesis
        by (cases "buf (audioInputChannel s)")
          (auto simp: sender_step_def chan_recv_def split: option.splits)
    next
      case (S_send ch)
      then show ?thesis by (simp add: sender_step_def split: option.splits)
    next
      case S_close
      then show ?thesis by (simp add: sender_step_def)
    next
      case (S_signal e)
      with sc ok show ?thesis by (simp add: sender_conduit_def)
    next
      case S_defer
      then show ?thesis by (simp add: sender_step_def split: close_result.splits)
    next
      case S_panic
      with sc show ?thesis by (simp add: sender_conduit_def)
    next
      case S_done
      with busy show ?thesis by simp
    qed
    with alive show ?thesis by simp
  qed
  have returns: "\<exists>s'. run (full_schedule cs fin) init = Some s' \<and> spc s' = S_done \<and>
      submitted (trace s') = cs @ [fin] \<and> send_failures (trace s') = []"
    using full_schedule_runs [OF assms(3,4)] by blast
  from once delivered moves returns show ?thesis by blast
qed

theorem C3_forwarder_delivers_in_order_witness:
  "run graceful_run init = Some graceful_end \<and>
   submitted (trace graceful_end) = [audio_chunk] @ [final_chunk] \<and>
   nonfinal [audio_chunk] \<and> Final final_chunk \<and>
   stream_ops (trace graceful_end) = [StreamSend ''ab'', StreamClose]"
proof -
  have sub: "submitted (trace graceful_end) = [audio_chunk] @ [final_chunk]"
    by (simp add: graceful_end_def submitted_def audio_chunk_def final_chunk_def)
  have nf: "nonfinal [audio_chunk]" and fin: "Final final_chunk"
    by (simp_all add: nonfinal_def audio_chunk_def final_chunk_def)
  have "spc graceful_end = S_done \<and> send_failures (trace graceful_end) = []"
    by (simp add: graceful_end_def send_failures_def)
  with C3_forwarder_delivers_in_order [OF graceful_run_end sub nf fin]
  have "stream_ops (trace graceful_end) = sends [audio_chunk] @ [StreamClose]"
    by simp
  with graceful_run_end sub nf fin show ?thesis
    by (simp add: sends_def audio_chunk_def)
qed

section \<open>One termination signal from each task\<close>

lemma signalling_run_end: "run signalling_run init = Some signalling_end"
  by (simp add: signalling_run_def signalling_end_def step_defs)

text \<open>
  Claim C4. The termination signal of a task is what the one receive of the closer
  obtains from the task's conduit: the error the task sent, or nil from the closed
  channel. When the sender has returned, the history of sendDone is either its close alone
  (a clean signal) or one error value and then the close; the same holds for the receiver
  and recvDone, also when the receiver leaves through a panic, and when the input channel
  was closed without a final chunk. The send of the error finds the conduit open and
  empty, and the deferred close finds it open: neither blocks nor panics.
\<close>

theorem C4_one_termination_signal_each:
  assumes "run as init = Some s"
  shows "(spc s = S_done \<longrightarrow>
            signal_ops FromSender (trace s) = [SignalClosed FromSender] \<or>
            (\<exists>m. signal_ops FromSender (trace s) =
                   [SignalSent FromSender (Some m), SignalClosed FromSender])) \<and>
         (rpc s = R_done \<longrightarrow>
            signal_ops FromReceiver (trace s) = [SignalClosed FromReceiver] \<or>
            (\<exists>m. signal_ops FromReceiver (trace s) =
                   [SignalSent FromReceiver (Some m), SignalClosed FromReceiver])) \<and>
         (spc s = S_signal e \<longrightarrow> (\<exists>c. chan_send (sendDone s) e = Sent c)) \<and>
         (spc s = S_defer \<longrightarrow> (\<exists>c. chan_close (sendDone s) = Closed c)) \<and>
         (rpc s = R_signal e \<longrightarrow> (\<exists>c. chan_send (recvDone s) e = Sent c)) \<and>
         (rpc s = R_defer \<or> rpc s = R_panic \<longrightarrow> (\<exists>c. chan_close (recvDone s) = Closed c))"
proof -
  from assms have "invariants s" by (rule reachable_invariants)
  then have sc: "sender_conduit s" and rc: "receiver_conduit s"
    by (simp_all add: invariants_def)
  from sc have sender: "(spc s = S_done \<longrightarrow>
      signal_ops FromSender (trace s) = [SignalClosed FromSender] \<or>
      (\<exists>m. signal_ops FromSender (trace s) =
             [SignalSent FromSender (Some m), SignalClosed FromSender])) \<and>
    (spc s = S_signal e \<longrightarrow> (\<exists>c. chan_send (sendDone s) e = Sent c)) \<and>
    (spc s = S_defer \<longrightarrow> (\<exists>c. chan_close (sendDone s) = Closed c))"
    by (cases "spc s") (auto simp: sender_conduit_def chan_send_def chan_close_def)
  from rc have receiver: "(rpc s = R_done \<longrightarrow>
      signal_ops FromReceiver (trace s) = [SignalClosed FromReceiver] \<or>
      (\<exists>m. signal_ops FromReceiver (trace s) =
             [SignalSent FromReceiver (Some m), SignalClosed FromReceiver])) \<and>
    (rpc s = R_signal e \<longrightarrow> (\<exists>c. chan_send (recvDone s) e = Sent c)) \<and>
    (rpc s = R_defer \<or> rpc s = R_panic \<longrightarrow> (\<exists>c. chan_close (recvDone s) = Closed c))"
    by (cases "rpc s") (auto simp: receiver_conduit_def chan_send_def chan_close_def)
  from sender receiver show ?thesis by blast
qed

theorem C4_one_termination_signal_each_witness:
  "run transcript_run init = Some transcript_end \<and>
   signal_ops FromSender (trace transcript_end) = [SignalClosed FromSender] \<and>
   signal_ops FromReceiver (trace transcript_end) =
     [SignalSent FromReceiver (Some ''receive: eof''), SignalClosed FromReceiver] \<and>
   run signalling_run init = Some signalling_end \<and>
   (\<exists>c. chan_send (sendDone signalling_end) (Some ''send audio: broken pipe'') = Sent c)"
proof -
  have "spc transcript_end = S_done" and "rpc transcript_end = R_done"
    and "spc signalling_end = S_signal (Some ''send audio: broken pipe'')"
    by (simp_all add: transcript_end_def signalling_end_def)
  with C4_one_termination_signal_each [OF transcript_run_end]
    C4_one_termination_signal_each [OF signalling_run_end,
      of "Some ''send audio: broken pipe''"]
  have "\<exists>c. chan_send (sendDone signalling_end) (Some ''send audio: broken pipe'') = Sent c"
    by simp
  with transcript_run_end signalling_run_end show ?thesis
    by (simp add: transcript_end_def signal_ops_def)
qed

section \<open>The closer closes both output channels once, after the error\<close>

lemma closes_in_closer_ops:
  "filter (\<lambda>x. x = TranscriptClosed) tr = filter (\<lambda>x. x = TranscriptClosed) (closer_ops tr)"
  "filter (\<lambda>x. x = ErrClosed) tr = filter (\<lambda>x. x = ErrClosed) (closer_ops tr)"
  by (induction tr) (simp_all add: closer_ops_def)

text \<open>
  What holds of the closer in every execution. What it does to the two output channels
  is, at every moment, a beginning of the sequence: the send of the authoritative error if
  there is one, the close of the transcript channel, the close of the error channel. When
  the closer has returned it is the whole sequence, so each channel was closed exactly
  once, the transcript channel first, and the error was sent before both. Each close finds
  its channel open, so it neither blocks nor panics.
\<close>

lemma closer_sequence:
  assumes "run as init = Some s"
  shows "prefix (closer_ops (trace s))
           (publish_ops (first_error (trace s)) @ [TranscriptClosed, ErrClosed]) \<and>
         (cpc s = C_done \<longrightarrow>
            closer_ops (trace s) =
              publish_ops (first_error (trace s)) @ [TranscriptClosed, ErrClosed] \<and>
            filter (\<lambda>x. x = TranscriptClosed) (trace s) = [TranscriptClosed] \<and>
            filter (\<lambda>x. x = ErrClosed) (trace s) = [ErrClosed]) \<and>
         (cpc s = C_close_transcript \<longrightarrow>
            (\<exists>c. chan_close (transcriptOutputChannel s) = Closed c)) \<and>
         (cpc s = C_close_err \<longrightarrow> (\<exists>c. chan_close (errOutputChannel s) = Closed c))"
proof -
  from assms have "invariants s" by (rule reachable_invariants)
  then have ci: "closer_inv s" by (simp add: invariants_def)
  show ?thesis
  proof (cases "cpc s")
    case C_select
    with ci show ?thesis by (simp add: closer_inv_def)
  next
    case (C_publish e)
    with ci show ?thesis by (simp add: closer_inv_def)
  next
    case C_close_transcript
    with ci show ?thesis by (simp add: closer_inv_def chan_close_def)
  next
    case C_close_err
    with ci show ?thesis by (simp add: closer_inv_def chan_close_def)
  next
    case C_done
    with ci have ops: "closer_ops (trace s) =
        publish_ops (first_error (trace s)) @ [TranscriptClosed, ErrClosed]"
      by (simp add: closer_inv_def)
    have "filter (\<lambda>x. x = TranscriptClosed) (trace s) =
        filter (\<lambda>x. x = TranscriptClosed) (closer_ops (trace s))"
      and "filter (\<lambda>x. x = ErrClosed) (trace s) =
        filter (\<lambda>x. x = ErrClosed) (closer_ops (trace s))"
      by (rule closes_in_closer_ops)+
    with ops have "filter (\<lambda>x. x = TranscriptClosed) (trace s) = [TranscriptClosed]"
      and "filter (\<lambda>x. x = ErrClosed) (trace s) = [ErrClosed]"
      by (simp_all add: publish_ops_def split: option.splits)
    with ops C_done show ?thesis by simp
  qed
qed

lemma dead_run_end: "run dead_run init = Some dead_end"
  by (simp add: dead_run_def sender_first_run_def dead_end_def step_defs)

text \<open>
  Claim C5 fails on the code, by the defect of claim C2. In \<open>dead_run\<close> the closer has
  closed transcriptOutputChannel (line 229) and is about to close errOutputChannel (line
  230) when the receiver's send on the closed channel panics and the process dies: the
  transcript channel was closed once, the error channel never, and no task can take a
  step any more.
\<close>

theorem C5_error_channel_left_open:
  "run dead_run init = Some dead_end \<and>
   crashed dead_end \<and> cpc dead_end = C_close_err \<and>
   filter (\<lambda>x. x = TranscriptClosed) (trace dead_end) = [TranscriptClosed] \<and>
   filter (\<lambda>x. x = ErrClosed) (trace dead_end) = [] \<and>
   \<not> closed (errOutputChannel dead_end) \<and>
   fire (CloserStep FromSender) dead_end = None \<and>
   fire (CloserStep FromReceiver) dead_end = None"
  using dead_run_end by (simp add: dead_end_def fire_def)

section \<open>Only the first error reaches the error channel\<close>

lemma err_sent_is_closer_op: "\<not> is_closer_op x \<Longrightarrow> err_sent_of x = []"
  by (cases x) simp_all

lemma errors_published_closer_ops:
  "errors_published tr = concat (map err_sent_of (closer_ops tr))"
  by (induction tr) (simp_all add: errors_published_def closer_ops_def err_sent_is_closer_op)

text \<open>
  Claim C6. The closer takes one termination signal, the one its select received first.
  At most one value is ever sent on errOutputChannel, and it is the error of that signal.
  When that signal carries no error nothing is ever sent, whatever the other task does
  later. Once the closer is past line 227 an error of the first signal has been sent, not
  dropped: the send finds the channel open and empty, so the closer is not blocked.
\<close>

theorem C6_first_error_only:
  assumes "run as init = Some s"
  shows "length (observations (trace s)) \<le> 1 \<and>
         length (errors_published (trace s)) \<le> 1 \<and>
         (errors_published (trace s) = [] \<or>
          errors_published (trace s) = [first_error (trace s)] \<and>
          first_error (trace s) \<noteq> None) \<and>
         (cpc s = C_close_transcript \<or> cpc s = C_close_err \<or> cpc s = C_done \<longrightarrow>
            errors_published (trace s) =
              (case first_error (trace s) of None \<Rightarrow> [] | Some m \<Rightarrow> [Some m])) \<and>
         (cpc s = C_publish e \<and> e \<noteq> None \<longrightarrow>
            (\<exists>c. chan_send (errOutputChannel s) e = Sent c))"
proof -
  from assms have "invariants s" by (rule reachable_invariants)
  then have ci: "closer_inv s" by (simp add: invariants_def)
  show ?thesis
  proof (cases "cpc s")
    case C_select
    with ci show ?thesis by (simp add: closer_inv_def errors_published_closer_ops)
  next
    case (C_publish e')
    with ci show ?thesis
      by (auto simp: closer_inv_def errors_published_closer_ops chan_send_def)
  next
    case C_close_transcript
    with ci show ?thesis
      by (cases "first_error (trace s)")
        (auto simp: closer_inv_def errors_published_closer_ops publish_ops_def)
  next
    case C_close_err
    with ci show ?thesis
      by (cases "first_error (trace s)")
        (auto simp: closer_inv_def errors_published_closer_ops publish_ops_def)
  next
    case C_done
    with ci show ?thesis
      by (cases "first_error (trace s)")
        (auto simp: closer_inv_def errors_published_closer_ops publish_ops_def)
  qed
qed

theorem C6_first_error_only_witness:
  "run failed_send_run init = Some failed_send_end \<and>
   observations (trace failed_send_end) =
     [(FromSender, Some ''send audio: broken pipe'')] \<and>
   errors_published (trace failed_send_end) = [Some ''send audio: broken pipe''] \<and>
   run graceful_run init = Some graceful_end \<and>
   errors_published (trace graceful_end) = []"
proof -
  have "cpc failed_send_end = C_done" and "cpc graceful_end = C_done"
    and "first_error (trace failed_send_end) = Some ''send audio: broken pipe''"
    and "first_error (trace graceful_end) = None"
    by (simp_all add: failed_send_end_def graceful_end_def first_error_def observations_def)
  with C6_first_error_only [OF failed_send_run_end] C6_first_error_only [OF graceful_run_end]
  have "errors_published (trace failed_send_end) = [Some ''send audio: broken pipe'']"
    and "errors_published (trace graceful_end) = []"
    by simp_all
  with failed_send_run_end graceful_run_end show ?thesis
    by (simp add: failed_send_end_def observations_def)
qed

section \<open>The receiver publishes the fragments of the events, in order\<close>

lemma alt_loop_fragments:
  "alt_loop p alts = map (\<lambda>t. \<lparr>Text = t, Partial = p\<rparr>) (List.map_filter Transcript alts)"
  by (induction alts) (simp_all add: List.map_filter_simps split: option.splits)

lemma res_loop_fragments:
  "res_loop results =
     map to_piece (concat (map (\<lambda>res. map (\<lambda>t. (t, IsPartial res))
                                   (List.map_filter Transcript (Alternatives res))) results))"
  by (induction results) (simp_all add: alt_loop_fragments to_piece_def comp_def)

lemma pieces_of_fragments: "pieces_of ev = map to_piece (fragments ev)"
proof (cases ev)
  case (TranscriptEvent tr)
  then show ?thesis by (cases tr) (simp_all add: res_loop_fragments)
next
  case (OtherEvent kind)
  then show ?thesis by simp
qed

lemma pieces_of_events:
  "concat (map pieces_of evs) = map to_piece (concat (map fragments evs))"
  by (induction evs) (simp_all add: pieces_of_fragments)

text \<open>
  What holds of the receiver in every execution. The pieces it has sent on
  transcriptOutputChannel are always a beginning of the fragments of the events the remote
  session emitted, in the order of emission, each piece with the text of its fragment and
  the partial flag of the fragment's result. When the receiver has returned without a send
  on the closed channel they are all of them: for events with K fragments, exactly K
  pieces. An event of another kind is received and nothing else happens: no piece, no
  error, and the loop goes on.
\<close>

lemma collector_publishes_fragments:
  assumes "run as init = Some s"
  shows "prefix (published (trace s)) (map to_piece (concat (map fragments (emitted (trace s))))) \<and>
         (rpc s = R_done \<and> sends_on_closed (trace s) = [] \<longrightarrow>
            published (trace s) = map to_piece (concat (map fragments (emitted (trace s)))) \<and>
            length (published (trace s)) = length (concat (map fragments (emitted (trace s))))) \<and>
         (rpc s = R_range \<and> events s = OtherEvent kind # rest \<longrightarrow>
            receiver_step s =
              Some (log (EventTaken (OtherEvent kind)) (s\<lparr>events := rest, rpc := R_publish []\<rparr>))) \<and>
         (rpc s = R_publish [] \<longrightarrow> receiver_step s = Some (s\<lparr>rpc := R_range\<rparr>))"
proof -
  from assms have "invariants s" by (rule reachable_invariants)
  then have ri: "receiver_inv s" by (simp add: invariants_def)
  then have em: "emitted (trace s) = events_taken (trace s) @ events s"
    and pre: "prefix (published (trace s)) (concat (map pieces_of (events_taken (trace s))))"
    by (simp_all add: receiver_inv_def)
  from pre have "prefix (published (trace s))
      (concat (map pieces_of (events_taken (trace s))) @ concat (map pieces_of (events s)))"
    by (rule prefix_prefix)
  with em have beginning:
    "prefix (published (trace s)) (map to_piece (concat (map fragments (emitted (trace s)))))"
    by (simp add: pieces_of_events)
  have all: "published (trace s) = map to_piece (concat (map fragments (emitted (trace s))))"
    if "rpc s = R_done" and "sends_on_closed (trace s) = []"
    using ri that em
    by (simp add: receiver_inv_def pending_def in_loop_def pieces_of_events)
  have whole: "published (trace s) = map to_piece (concat (map fragments (emitted (trace s)))) \<and>
      length (published (trace s)) = length (concat (map fragments (emitted (trace s))))"
    if "rpc s = R_done" and "sends_on_closed (trace s) = []"
    using all [OF that] by simp
  have ignored: "receiver_step s =
      Some (log (EventTaken (OtherEvent kind)) (s\<lparr>events := rest, rpc := R_publish []\<rparr>))"
    if "rpc s = R_range" and "events s = OtherEvent kind # rest"
    using that by (simp add: receiver_step_def)
  have continues: "receiver_step s = Some (s\<lparr>rpc := R_range\<rparr>)" if "rpc s = R_publish []"
    using that by (simp add: receiver_step_def)
  from beginning whole ignored continues show ?thesis
    by blast
qed

text \<open>
  Claim C7 fails on the code, by the defect of claim C2. In \<open>dead_run\<close> the remote
  session has emitted one transcript event with two fragments, the receiver has received
  it and has returned, and it has published none of the two: its first send found
  transcriptOutputChannel closed by the closer and panicked.
\<close>

theorem C7_fragments_lost_on_closed_channel:
  "run dead_run init = Some dead_end \<and> rpc dead_end = R_done \<and>
   emitted (trace dead_end) = [hello_event] \<and>
   events_taken (trace dead_end) = [hello_event] \<and>
   concat (map fragments (emitted (trace dead_end))) = [(''hel'', True), (''hello'', False)] \<and>
   published (trace dead_end) = [] \<and>
   sends_on_closed (trace dead_end) = [TranscriptSendOnClosed \<lparr>Text = ''hel'', Partial = True\<rparr>]"
  using dead_run_end
  by (simp add: dead_end_def emitted_def events_taken_def published_def sends_on_closed_def
      hello_event_def List.map_filter_simps)

section \<open>A failed start leaves nothing behind\<close>

text \<open>
  Claim C10. When establishing the remote session fails, runTranscribeStream returns that
  error from the call itself, with nil for each of the three channel handles; it has made
  no channel and started no goroutine.
\<close>

theorem C10_failed_start_returns_error:
  "ret_err (runTranscribeStream (Some msg)) = Some msg \<and>
   ret_audio (runTranscribeStream (Some msg)) = None \<and>
   ret_transcript (runTranscribeStream (Some msg)) = None \<and>
   ret_errors (runTranscribeStream (Some msg)) = None \<and>
   channels_made (runTranscribeStream (Some msg)) = [] \<and>
   goroutines_started (runTranscribeStream (Some msg)) = [] \<and>
   running (runTranscribeStream (Some msg)) = None"
  by (simp add: runTranscribeStream_def)

section \<open>The frames of the writer\<close>

lemma json_string_plain:
  assumes "plain t"
  shows "json_string (t @ dq # rest) = Some (t, rest)"
  using assms by (induction t) (simp_all add: plain_def)

text \<open>
  A text without quotes, backslashes and control characters is serialized as the claim
  says.
\<close>

lemma plain_text_serializes:
  assumes "plain (Text piece)"
  shows "serializes (jsonMsg piece) piece"
proof -
  have key1: "json_string (''text'' @ dq # rest) = Some (''text'', rest)" for rest
    by (rule json_string_plain) (simp add: plain_def dq_def backslash_def is_control_def)
  have key2: "json_string (''partial'' @ dq # rest) = Some (''partial'', rest)" for rest
    by (rule json_string_plain) (simp add: plain_def dq_def backslash_def is_control_def)
  have val: "json_string (Text piece @ dq # rest) = Some (Text piece, rest)" for rest
    using assms by (rule json_string_plain)
  show ?thesis
    using key1 key2 val
    by (cases "Partial piece")
      (simp_all add: serializes_def parse_object_def jsonMsg_def json_member_def
        json_value_def format_bool_def dq_def)
qed

text \<open>
  Claim C9 fails on the code. The text of a piece is written between the quotes as it is,
  without escaping. A text with a quote in it gives a frame that is no serialized object;
  a text that closes the string itself gives an object with other fields: an empty
  \<^verbatim>\<open>text\<close>, a \<^verbatim>\<open>partial\<close> that is true and two more members.
\<close>

theorem C9_text_is_not_escaped:
  \<open>jsonMsg quoted_piece = ''{"text":"say "hi"","partial":false}'' \<and>
   parse_object (jsonMsg quoted_piece) = None \<and>
   \<not> serializes (jsonMsg quoted_piece) quoted_piece \<and>
   jsonMsg injecting_piece = ''{"text":"","partial":true,"x":"","partial":false}'' \<and>
   parse_object (jsonMsg injecting_piece) =
     Some [(''text'', JString ''''), (''partial'', JBool True), (''x'', JString ''''),
           (''partial'', JBool False)] \<and>
   \<not> serializes (jsonMsg injecting_piece) injecting_piece\<close>
  by (simp add: quoted_piece_def injecting_piece_def jsonMsg_def format_bool_def
      serializes_def parse_object_def json_member_def json_value_def dq_def backslash_def
      is_control_def numeral_eq_Suc)

section \<open>The units of the reader\<close>

lemma terminated_snoc: "terminated (rs @ [res]) \<longleftrightarrow> terminated rs \<or> ends_input res"
  by (simp add: terminated_def)

lemma payloads_snoc:
  assumes "\<not> terminated rs"
  shows "payloads (rs @ [res]) = payloads rs @ (if ends_input res then [] else binary_payload res)"
proof -
  from assms have safe: "\<And>x. x \<in> set rs \<Longrightarrow> \<not> ends_input x"
    by (auto simp: terminated_def list_ex_iff)
  then have whole: "takeWhile (\<lambda>res. \<not> ends_input res) rs = rs"
    by (simp add: takeWhile_eq_all_conv)
  from safe have "takeWhile (\<lambda>res. \<not> ends_input res) (rs @ [res]) =
      rs @ takeWhile (\<lambda>res. \<not> ends_input res) [res]"
    by (rule takeWhile_append2)
  then have "payloads (rs @ [res]) =
      concat (map binary_payload rs) @
      concat (map binary_payload (takeWhile (\<lambda>res. \<not> ends_input res) [res]))"
    by (simp add: payloads_def)
  moreover have "payloads rs = concat (map binary_payload rs)"
    by (simp only: payloads_def whole)
  ultimately show ?thesis by simp
qed

lemma arrays_kept:
  assumes "\<And>k. k < n \<Longrightarrow> h' (Suc k) = h (Suc k)"
  shows "map (\<lambda>k. h' (Suc k)) [0..<n] = map (\<lambda>k. h (Suc k)) [0..<n]"
  using assms by simp

lemma ts_advance:
  "0 < n \<Longrightarrow> (of_nat (100 * (n - 1)) :: 64 word) + 100 = of_nat (100 * n)"
  by (cases n) simp_all

lemma reader_inv_init: "reader_inv reader_init"
  by (simp add: reader_inv_def reader_init_def make_chan_def payloads_def terminated_def
      expected_units_def in_hand_def)

lemma reader_inv_read:
  assumes "reader_inv r" and "rdpc r = Rd_read"
  shows "reader_inv (read_message res (r\<lparr>reads := reads r @ [res]\<rparr>))"
proof -
  let ?n = "length (payloads (reads r))"
  from assms have open_chan: "cap (audioIn r) = 16" "\<not> closed (audioIn r)"
    and free: "next_free r = Suc ?n"
    and going: "\<not> terminated (reads r)"
    and arrays: "map (\<lambda>k. heap r (Suc k)) [0..<?n] = payloads (reads r)"
    and units: "sent r = map audio_unit [0..<?n]"
    and ts: "tsMs r = of_nat (100 * ?n)"
    by (simp_all add: reader_inv_def in_hand_def expected_units_def)
  have kept: "map (\<lambda>k. ((heap r)(conn_buffer := bs)) (Suc k)) [0..<?n] = payloads (reads r)"
    for bs
    using arrays by (simp add: conn_buffer_def)
  show ?thesis
  proof (cases res)
    case (ReadFailed msg)
    then have e: "ends_input res" by (simp add: ends_input_def)
    with ReadFailed open_chan free going arrays units ts show ?thesis
      by (simp add: reader_inv_def read_message_def signal_final_def payloads_snoc
          terminated_snoc expected_units_def in_hand_def terminal_unit_def del: of_nat_mult)
  next
    case (Message mt bs)
    show ?thesis
    proof (cases "mt = BinaryMessage")
      case True
      with Message have ne: "\<not> ends_input res" and pl: "binary_payload res = [bs]"
        by (simp_all add: ends_input_def binary_payload_def BinaryMessage_def TextMessage_def)
      have "map (\<lambda>k. ((heap r)(conn_buffer := bs, Suc ?n := bs)) (Suc k)) [0..<?n] =
          map (\<lambda>k. heap r (Suc k)) [0..<?n]"
        by (rule arrays_kept) (simp add: conn_buffer_def)
      with arrays
      have kept': "map (\<lambda>k. ((heap r)(conn_buffer := bs, Suc ?n := bs)) (Suc k)) [0..<?n] =
          payloads (reads r)"
        by simp
      from Message True ne pl open_chan free going units ts kept' show ?thesis
        by (simp add: reader_inv_def read_message_def copy_payload_def payloads_snoc
            terminated_snoc expected_units_def in_hand_def audio_unit_def
            del: of_nat_mult)
    next
      case False
      show ?thesis
      proof (cases "mt = TextMessage \<and> bs = ''END''")
        case True
        with Message have e: "ends_input res" by (simp add: ends_input_def)
        with Message True False open_chan free going units ts kept [of bs] show ?thesis
          by (simp add: reader_inv_def read_message_def signal_final_def payloads_snoc
              terminated_snoc expected_units_def in_hand_def terminal_unit_def
              del: of_nat_mult)
      next
        case other: False
        with Message False have ne: "\<not> ends_input res" and pl: "binary_payload res = []"
          by (simp_all add: ends_input_def binary_payload_def)
        have msg: "read_message res (r\<lparr>reads := reads r @ [res]\<rparr>) =
            r\<lparr>reads := reads r @ [res], heap := (heap r)(conn_buffer := bs)\<rparr>"
          using Message False other by (auto simp: read_message_def)
        from ne pl open_chan free going units ts kept [of bs] assms(2) show ?thesis
          by (simp add: msg reader_inv_def payloads_snoc terminated_snoc expected_units_def
              in_hand_def del: of_nat_mult)
      qed
    qed
  qed
qed

lemma reader_inv_step:
  assumes "reader_inv r" and "reader_step a r = Some r'"
  shows "reader_inv r'"
proof (cases a)
  case (ReadReturns res)
  with assms(2) have "rdpc r = Rd_read"
    and "r' = read_message res (r\<lparr>reads := reads r @ [res]\<rparr>)"
    by (auto simp: reader_step_def split: reader_pc.splits)
  with assms(1) show ?thesis by (simp add: reader_inv_read)
next
  case SendChunk
  show ?thesis
  proof (cases "rdpc r")
    case (Rd_send_audio ch)
    with assms(1) have "0 < length (payloads (reads r))"
      by (simp add: reader_inv_def)
    note adv = ts_advance [OF this]
    from assms SendChunk Rd_send_audio adv show ?thesis
      by (auto simp: reader_inv_def reader_step_def chan_send_def in_hand_def chunkMs_def
          split: if_splits simp del: of_nat_mult)
  next
    case (Rd_send_final ch)
    with assms SendChunk show ?thesis
      by (auto simp: reader_inv_def reader_step_def chan_send_def in_hand_def
          split: if_splits)
  qed (use assms SendChunk in \<open>simp_all add: reader_step_def\<close>)
next
  case Drain
  with assms show ?thesis
    by (cases "rdpc r")
      (auto simp: reader_inv_def reader_step_def chan_recv_def split: list.splits if_splits)
qed

lemma reader_reachable:
  assumes "reader_run as r = Some r'" and "reader_inv r"
  shows "reader_inv r'"
  using assms
  by (induction as arbitrary: r) (auto split: option.splits intro: reader_inv_step)

lemma length_expected_units:
  "length (expected_units rs) = length (payloads rs) + (if terminated rs then 1 else 0)"
  by (simp add: expected_units_def)

lemma expected_timestamp:
  assumes "k < length (expected_units rs)"
  shows "TsMs (expected_units rs ! k) = of_nat (100 * k)"
proof (cases "k < length (payloads rs)")
  case True
  then show ?thesis
    by (simp add: expected_units_def nth_append audio_unit_def del: of_nat_mult)
next
  case False
  with assms have "terminated rs" and "k = length (payloads rs)"
    by (auto simp: length_expected_units split: if_splits)
  then show ?thesis
    by (simp add: expected_units_def nth_append terminal_unit_def del: of_nat_mult)
qed

lemma sint_timestamp:
  assumes "k \<le> ts_bound"
  shows "sint (of_nat (100 * k) :: 64 word) = int (100 * k)"
proof -
  from assms have "int (100 * k) < 2 ^ 63"
    by (simp add: ts_bound_def)
  moreover have "- (2 ^ 63) \<le> int (100 * k)"
    by simp
  ultimately have "signed_take_bit 63 (int (100 * k)) = int (100 * k)"
    by (rule signed_take_bit_int_eq_self [rotated])
  then show ?thesis
    by (simp add: signed_of_nat del: of_nat_mult)
qed

lemma timestamps_increase:
  assumes "length (payloads rs) \<le> ts_bound"
  shows "sorted_wrt (<) (timestamps (expected_units rs))"
proof -
  have "timestamps (expected_units rs) ! i < timestamps (expected_units rs) ! j"
    if "i < j" and "j < length (expected_units rs)" for i j
  proof -
    from that assms have "j \<le> ts_bound" and "i \<le> ts_bound"
      by (auto simp: length_expected_units split: if_splits)
    with that show ?thesis
      by (simp add: timestamps_def expected_timestamp sint_timestamp del: of_nat_mult)
  qed
  then show ?thesis
    by (simp add: sorted_wrt_iff_nth_less timestamps_def)
qed

lemma sent_timestamps_increase:
  assumes "reader_inv r" and "length (payloads (reads r)) \<le> ts_bound"
  shows "sorted_wrt (<) (timestamps (sent r))"
proof -
  from assms(2) have "sorted_wrt (<) (timestamps (expected_units (reads r)))"
    by (rule timestamps_increase)
  moreover from assms(1)
  have "timestamps (expected_units (reads r)) =
      timestamps (sent r) @ timestamps (in_hand (rdpc r))"
    by (simp add: reader_inv_def timestamps_def flip: map_append)
  ultimately show ?thesis by (simp add: sorted_wrt_append)
qed

text \<open>
  Claim C8, as the code has it. In every execution of the reader, the units it has sent on
  audioIn, with the one it is about to send, are the expected units of the frames it has
  read: one unit for each binary frame, in order, and exactly one terminal unit, the
  last, for a read failure or a text frame \<^verbatim>\<open>END\<close>; nothing else gives a unit. The
  payload of each unit is an array of its own, not the connection's buffer, and it still
  holds the bytes of its frame, although the buffer was overwritten by every later read.
  After the read that ends the input the reader reads no more; it returns when the
  terminal unit is sent. A unit is sent when audioIn has room: the send can be taken
  exactly when fewer than 16 chunks wait in the channel, and the reader stands at it
  until then. The timestamp of a unit is 100 times the number of binary frames before it,
  in 64 bits: the timestamps increase strictly as long as no more than \<open>ts_bound\<close> binary
  frames were read.
\<close>

theorem C8_reader_units:
  assumes "reader_run as reader_init = Some r"
  shows "sent r @ in_hand (rdpc r) = expected_units (reads r) \<and>
         map (\<lambda>k. heap r (Suc k)) [0..<length (payloads (reads r))] = payloads (reads r) \<and>
         \<not> terminated (butlast (reads r)) \<and>
         (terminated (reads r) \<longleftrightarrow> rdpc r = Rd_done \<or> (\<exists>ch. rdpc r = Rd_send_final ch)) \<and>
         (rdpc r = Rd_done \<longrightarrow>
            reader_step (ReadReturns res) r = None \<and> reader_step SendChunk r = None) \<and>
         (at_send (rdpc r) \<longrightarrow>
            (reader_step SendChunk r \<noteq> None \<longleftrightarrow> length (buf (audioIn r)) < 16)) \<and>
         (length (payloads (reads r)) \<le> ts_bound \<longrightarrow> sorted_wrt (<) (timestamps (sent r)))"
proof -
  from assms reader_inv_init have inv: "reader_inv r" by (rule reader_reachable)
  then have units: "sent r @ in_hand (rdpc r) = expected_units (reads r)"
    and arrays: "map (\<lambda>k. heap r (Suc k)) [0..<length (payloads (reads r))] =
      payloads (reads r)"
    and stops: "\<not> terminated (butlast (reads r))"
    by (simp_all add: reader_inv_def)
  from inv have ended:
    "terminated (reads r) \<longleftrightarrow> rdpc r = Rd_done \<or> (\<exists>ch. rdpc r = Rd_send_final ch)"
    by (cases "rdpc r") (simp_all add: reader_inv_def)
  have returned: "reader_step (ReadReturns res) r = None \<and> reader_step SendChunk r = None"
    if "rdpc r = Rd_done"
    using that by (simp add: reader_step_def)
  from inv have room:
    "reader_step SendChunk r \<noteq> None \<longleftrightarrow> length (buf (audioIn r)) < 16"
    if "at_send (rdpc r)"
    using that
    by (cases "rdpc r") (simp_all add: reader_inv_def at_send_def reader_step_def chan_send_def)
  have sorted: "sorted_wrt (<) (timestamps (sent r))"
    if "length (payloads (reads r)) \<le> ts_bound"
    using inv that by (rule sent_timestamps_increase)
  from units arrays stops ended returned room sorted show ?thesis by blast
qed

lemmas reader_defs =
  reader_step_def read_message_def copy_payload_def signal_final_def reader_init_def
  chan_send_def chan_recv_def make_chan_def TextMessage_def BinaryMessage_def chunkMs_def
  conn_buffer_def

theorem C8_reader_units_witness:
  "reader_run sample_schedule reader_init \<noteq> None \<and>
   rdpc (the (reader_run sample_schedule reader_init)) = Rd_done \<and>
   length (payloads (reads (the (reader_run sample_schedule reader_init)))) \<le> ts_bound \<and>
   sent (the (reader_run sample_schedule reader_init)) =
     [\<lparr>PCM = Some 1, TsMs = 0, Final = False\<rparr>, \<lparr>PCM = Some 2, TsMs = 100, Final = False\<rparr>,
      \<lparr>PCM = None, TsMs = 200, Final = True\<rparr>] \<and>
   heap (the (reader_run sample_schedule reader_init)) 1 = ''ab'' \<and>
   heap (the (reader_run sample_schedule reader_init)) 2 = ''cd'' \<and>
   heap (the (reader_run sample_schedule reader_init)) conn_buffer = ''END'' \<and>
   sorted_wrt (<) (timestamps (sent (the (reader_run sample_schedule reader_init))))"
proof -
  have run: "reader_run sample_schedule reader_init =
      Some (the (reader_run sample_schedule reader_init))"
    by (simp add: sample_schedule_def reader_defs)
  have facts: "rdpc (the (reader_run sample_schedule reader_init)) = Rd_done"
    "reads (the (reader_run sample_schedule reader_init)) =
       [Message 2 ''ab'', Message 9 ''ping'', Message 1 ''hello'', Message 2 ''cd'',
        Message 1 ''END'']"
    "sent (the (reader_run sample_schedule reader_init)) =
       [\<lparr>PCM = Some 1, TsMs = 0, Final = False\<rparr>, \<lparr>PCM = Some 2, TsMs = 100, Final = False\<rparr>,
        \<lparr>PCM = None, TsMs = 200, Final = True\<rparr>]"
    "heap (the (reader_run sample_schedule reader_init)) 1 = ''ab''"
    "heap (the (reader_run sample_schedule reader_init)) 2 = ''cd''"
    "heap (the (reader_run sample_schedule reader_init)) conn_buffer = ''END''"
    by (simp_all add: sample_schedule_def reader_defs eval_nat_numeral)
  have bound: "length (payloads (reads (the (reader_run sample_schedule reader_init)))) \<le>
      ts_bound"
    by (simp add: facts(2) payloads_def ends_input_def binary_payload_def TextMessage_def
        BinaryMessage_def ts_bound_def)
  have runs: "reader_run sample_schedule reader_init \<noteq> None"
    by (simp add: sample_schedule_def reader_defs)
  from C8_reader_units [OF run] bound
  have "sorted_wrt (<) (timestamps (sent (the (reader_run sample_schedule reader_init))))"
    by blast
  with runs facts bound show ?thesis by simp
qed

subsection \<open>Where the claim as stated fails\<close>

lemma reader_run_append:
  "reader_run (as @ bs) r =
     (case reader_run as r of None \<Rightarrow> None | Some r' \<Rightarrow> reader_run bs r')"
  by (induction as arbitrary: r) (simp_all split: option.splits)

lemma drained_frames_run:
  assumes "rdpc r = Rd_read" and "audioIn r = make_chan 16"
  shows "\<exists>r'. reader_run (drained_frames n) r = Some r' \<and> rdpc r' = Rd_read \<and>
           audioIn r' = make_chan 16 \<and> reads r' = reads r @ replicate n (Message 2 [])"
  using assms
proof (induction n arbitrary: r)
  case 0
  then show ?case by (simp add: drained_frames_def)
next
  case (Suc n)
  let ?block = "[ReadReturns (Message 2 []), SendChunk, Drain]"
  from Suc.prems obtain r1 where one: "reader_run ?block r = Some r1"
    and at1: "rdpc r1 = Rd_read" "audioIn r1 = make_chan 16"
    and rd1: "reads r1 = reads r @ [Message 2 []]"
    by (simp add: reader_step_def read_message_def copy_payload_def chan_send_def
        chan_recv_def make_chan_def TextMessage_def BinaryMessage_def)
  from Suc.IH [OF at1] obtain r2 where more: "reader_run (drained_frames n) r1 = Some r2"
    and at2: "rdpc r2 = Rd_read" "audioIn r2 = make_chan 16"
    and rd2: "reads r2 = reads r1 @ replicate n (Message 2 [])"
    by blast
  have "drained_frames (Suc n) = ?block @ drained_frames n"
    by (simp add: drained_frames_def)
  with one more have "reader_run (drained_frames (Suc n)) r = Some r2"
    by (simp only: reader_run_append) simp
  with at2 rd1 rd2 show ?case by (simp add: replicate_app_Cons_same)
qed

lemma long_schedule_runs:
  "\<exists>r. reader_run long_schedule reader_init = Some r \<and> rdpc r = Rd_done \<and>
       reads r = long_reads"
proof -
  have "rdpc reader_init = Rd_read" "audioIn reader_init = make_chan 16"
    by (simp_all add: reader_init_def)
  from drained_frames_run [OF this, of 92233720368547759] obtain r1
    where r1: "reader_run (drained_frames 92233720368547759) reader_init = Some r1"
      and at1: "rdpc r1 = Rd_read" "audioIn r1 = make_chan 16"
      and rd1: "reads r1 = replicate 92233720368547759 (Message 2 [])"
    by (auto simp: reader_init_def)
  from at1 rd1 obtain r2
    where r2: "reader_run [ReadReturns (ReadFailed ''closed''), SendChunk] r1 = Some r2"
      and "rdpc r2 = Rd_done" and "reads r2 = long_reads"
    by (simp add: reader_step_def read_message_def signal_final_def chan_send_def
        make_chan_def long_reads_def)
  moreover from r1 r2 have "reader_run long_schedule reader_init = Some r2"
    by (simp only: long_schedule_def reader_run_append) simp
  ultimately show ?thesis by blast
qed

lemma concat_replicate_single: "concat (replicate n [x]) = replicate n x"
  by (induction n) simp_all

lemma payloads_long_reads: "length (payloads long_reads) = 92233720368547759"
proof -
  have "takeWhile (\<lambda>res. \<not> ends_input res)
          (replicate 92233720368547759 (Message 2 []) @ [ReadFailed ''closed'']) =
        replicate 92233720368547759 (Message 2 []) @
        takeWhile (\<lambda>res. \<not> ends_input res) [ReadFailed ''closed'']"
    by (rule takeWhile_append2) (simp add: ends_input_def TextMessage_def)
  then have "payloads long_reads = concat (replicate 92233720368547759 [[]])"
    by (simp add: long_reads_def payloads_def ends_input_def binary_payload_def
        BinaryMessage_def)
  then show ?thesis
    by (simp add: concat_replicate_single)
qed

lemma terminated_long_reads: "terminated long_reads"
  by (simp add: long_reads_def terminated_def ends_input_def)

lemma long_timestamps_wrap: "\<not> sorted_wrt (<) (timestamps (expected_units long_reads))"
proof
  assume sorted: "sorted_wrt (<) (timestamps (expected_units long_reads))"
  have len: "length (expected_units long_reads) = 92233720368547760"
    by (simp add: length_expected_units payloads_long_reads terminated_long_reads)
  have "timestamps (expected_units long_reads) ! 92233720368547758 <
      timestamps (expected_units long_reads) ! 92233720368547759"
    using sorted len
    by (simp add: sorted_wrt_iff_nth_less timestamps_def)
  moreover have "timestamps (expected_units long_reads) ! 92233720368547758 =
      9223372036854775800"
    using len by (simp add: timestamps_def expected_timestamp)
  moreover have "timestamps (expected_units long_reads) ! 92233720368547759 =
      - 9223372036854775716"
    using len by (simp add: timestamps_def expected_timestamp)
  ultimately show False by simp
qed

text \<open>The reader with \<open>k\<close> chunks waiting in audioIn and no final chunk sent so far.\<close>

lemma queued_frames_run:
  assumes "rdpc r = Rd_read" and "cap (audioIn r) = 16" and "\<not> closed (audioIn r)"
    and "length (buf (audioIn r)) = k" and "k + n \<le> 16" and "filter Final (sent r) = []"
  shows "\<exists>r'. reader_run (queued_frames n) r = Some r' \<and> rdpc r' = Rd_read \<and>
           cap (audioIn r') = 16 \<and> \<not> closed (audioIn r') \<and>
           length (buf (audioIn r')) = k + n \<and> filter Final (sent r') = []"
  using assms
proof (induction n arbitrary: r k)
  case 0
  then show ?case by (simp add: queued_frames_def)
next
  case (Suc n)
  let ?block = "[ReadReturns (Message 2 []), SendChunk]"
  from Suc.prems obtain r1 where one: "reader_run ?block r = Some r1"
    and at1: "rdpc r1 = Rd_read" "cap (audioIn r1) = 16" "\<not> closed (audioIn r1)"
      "length (buf (audioIn r1)) = Suc k" "filter Final (sent r1) = []"
    by (simp add: reader_step_def read_message_def copy_payload_def chan_send_def
        TextMessage_def BinaryMessage_def)
  from Suc.prems have "Suc k + n \<le> 16" by simp
  from Suc.IH [OF at1(1-4) this at1(5)] obtain r2
    where more: "reader_run (queued_frames n) r1 = Some r2"
      and at2: "rdpc r2 = Rd_read" "cap (audioIn r2) = 16" "\<not> closed (audioIn r2)"
        "length (buf (audioIn r2)) = Suc k + n" "filter Final (sent r2) = []"
    by blast
  have "queued_frames (Suc n) = ?block @ queued_frames n"
    by (simp add: queued_frames_def)
  with one more have "reader_run (queued_frames (Suc n)) r = Some r2"
    by (simp only: reader_run_append) simp
  with at2 show ?case by simp
qed

lemma full_queue_blocks:
  "\<exists>r. reader_run full_queue_schedule reader_init = Some r \<and> at_send (rdpc r) \<and>
       terminated (reads r) \<and> filter Final (sent r) = [] \<and> reader_step SendChunk r = None"
proof -
  have "rdpc reader_init = Rd_read" "cap (audioIn reader_init) = 16"
    "\<not> closed (audioIn reader_init)" "length (buf (audioIn reader_init)) = 0"
    "0 + 16 \<le> (16::nat)" "filter Final (sent reader_init) = []"
    by (simp_all add: reader_init_def make_chan_def)
  from queued_frames_run [OF this] obtain r1
    where r1: "reader_run (queued_frames 16) reader_init = Some r1"
      and at1: "rdpc r1 = Rd_read" "cap (audioIn r1) = 16" "\<not> closed (audioIn r1)"
        "length (buf (audioIn r1)) = 16" "filter Final (sent r1) = []"
    by auto
  from at1 obtain r2
    where r2: "reader_run [ReadReturns (Message 1 ''END'')] r1 = Some r2"
      and end2: "at_send (rdpc r2)" "filter Final (sent r2) = []"
        "reader_step SendChunk r2 = None" "reads r2 = reads r1 @ [Message 1 ''END'']"
    by (simp add: reader_step_def read_message_def signal_final_def chan_send_def
        at_send_def TextMessage_def BinaryMessage_def)
  from end2(4) have "terminated (reads r2)"
    by (simp add: terminated_snoc ends_input_def TextMessage_def)
  moreover from r1 r2 have "reader_run full_queue_schedule reader_init = Some r2"
    by (simp only: full_queue_schedule_def reader_run_append) simp
  ultimately show ?thesis using end2 by blast
qed

text \<open>
  Claim C8 as it is stated, for every sequence of frames, fails in two ways. After
  92233720368547759 binary frames the int64 timestamp has wrapped around: in
  \<open>long_schedule\<close> the terminal unit has a smaller timestamp than the unit before it. And
  a unit is produced only when audioIn has room: in \<open>full_queue_schedule\<close> sixteen
  chunks wait in the channel when the text frame \<^verbatim>\<open>END\<close> is read, and the reader
  stands at the send of the terminal unit, which it has not produced, and has not
  returned; it stays there for ever when the sender of the bridge has returned, as at the
  end of \<open>failed_send_run\<close>, where no step of the sender can be taken.
\<close>

theorem C8_counterexample:
  "reader_run long_schedule reader_init \<noteq> None \<and>
   \<not> sorted_wrt (<) (timestamps (sent (the (reader_run long_schedule reader_init)))) \<and>
   reader_run full_queue_schedule reader_init \<noteq> None \<and>
   terminated (reads (the (reader_run full_queue_schedule reader_init))) \<and>
   filter Final (sent (the (reader_run full_queue_schedule reader_init))) = [] \<and>
   rdpc (the (reader_run full_queue_schedule reader_init)) \<noteq> Rd_done \<and>
   reader_step SendChunk (the (reader_run full_queue_schedule reader_init)) = None \<and>
   fire (SenderStep None) failed_send_end = None"
proof -
  from long_schedule_runs obtain r
    where run: "reader_run long_schedule reader_init = Some r"
      and fin: "rdpc r = Rd_done" and rd: "reads r = long_reads"
    by blast
  from run reader_inv_init have "reader_inv r" by (rule reader_reachable)
  with fin rd have "sent r = expected_units long_reads"
    by (simp add: reader_inv_def in_hand_def)
  with long_timestamps_wrap have wrap: "\<not> sorted_wrt (<) (timestamps (sent r))"
    by simp
  from full_queue_blocks obtain q
    where full: "reader_run full_queue_schedule reader_init = Some q"
      and blocked: "at_send (rdpc q)" "terminated (reads q)" "filter Final (sent q) = []"
        "reader_step SendChunk q = None"
    by blast
  from blocked(1) have "rdpc q \<noteq> Rd_done" by (auto simp: at_send_def)
  moreover have "fire (SenderStep None) failed_send_end = None"
    by (simp add: fire_def sender_step_def failed_send_end_def)
  ultimately show ?thesis using run wrap full blocked by simp
qed

end
